theory Spec2Isabelle
  imports Main
begin

section \<open>The game-state reducer of src/main.ts\<close>

text \<open>
  The theory embeds the pure part of \<^verbatim>\<open>src/Tetris/Tetris/src/main.ts\<close>: the piece
  catalogue, \<^verbatim>\<open>tetrominoRotation\<close>, \<^verbatim>\<open>mergeBlockWithBlock\<close>, \<^verbatim>\<open>collisionChecker\<close>,
  \<^verbatim>\<open>getRandomTetromino\<close>, \<^verbatim>\<open>lockBlockChecker\<close>, \<^verbatim>\<open>lockBlock\<close>, \<^verbatim>\<open>clearAndMoveRows\<close>
  and the reducer \<^verbatim>\<open>stateUpdater\<close>.

  Conventions of the embedding.
  \<^item> A JavaScript \<^verbatim>\<open>number\<close> that the program uses as an integer (cells, colours,
    coordinates, score, level) is an \<open>int\<close>; an array is a list, \<^verbatim>\<open>number[][]\<close> a list
    of lists. The arithmetic on the score, the one number of a game that grows without
    bound, is rounded as the arithmetic on doubles is.
  \<^item> An uncaught exception is the value \<open>Inl TypeError\<close>: reading a property of
    \<^verbatim>\<open>undefined\<close> (\<^verbatim>\<open>a[i][j]\<close> when \<^verbatim>\<open>a[i]\<close> does not exist, \<^verbatim>\<open>shape[0].length\<close>
    of an empty shape) raises it.
  \<^item> Two things JavaScript does without raising cannot be held by a list of integers:
    reading \<^verbatim>\<open>row[c]\<close> beyond a short row of a ragged shape (the value \<^verbatim>\<open>undefined\<close>
    would be stored in the rotated shape), and writing \<^verbatim>\<open>row[c] = v\<close> beyond the end of
    a row (the row would grow, with holes). The embedding stops there with
    \<open>Inl Unmodelled\<close>; rectangular shapes and ten-column boards never get there.
  \<^item> The generator \<^verbatim>\<open>rngStream\<close> is a linear congruential generator on a module-level
    floating-point seed. Its only use is \<^verbatim>\<open>(rngStream() * 7) | 0\<close>, an index between
    0 and 6, drawn once in every call of \<^verbatim>\<open>lockBlock\<close>. The embedding takes that index
    as the argument \<open>randomIndex\<close> of the functions that draw.
\<close>

subsection \<open>Data\<close>

abbreviation GRID_WIDTH :: int where "GRID_WIDTH \<equiv> 10"
abbreviation GRID_HEIGHT :: int where "GRID_HEIGHT \<equiv> 20"

record Tetromino =
  shape :: "int list list"
  color :: int
  x :: int
  y :: int

definition tetrominoes :: "Tetromino list" where
  "tetrominoes =
    [\<lparr>shape = [[1, 1], [1, 1]], color = 1, x = 4, y = -1\<rparr>,
     \<lparr>shape = [[1, 1, 1, 1]], color = 2, x = 4, y = -1\<rparr>,
     \<lparr>shape = [[0, 1, 0], [1, 1, 1]], color = 3, x = 4, y = -1\<rparr>,
     \<lparr>shape = [[1, 1, 1], [1, 0, 0]], color = 4, x = 4, y = -1\<rparr>,
     \<lparr>shape = [[1, 1, 1], [0, 0, 1]], color = 5, x = 4, y = -1\<rparr>,
     \<lparr>shape = [[1, 1, 0], [0, 1, 1]], color = 6, x = 4, y = -1\<rparr>,
     \<lparr>shape = [[0, 1, 1], [1, 1, 0]], color = 7, x = 4, y = -1\<rparr>]"

record State =
  gameEnd :: bool
  grid :: "int list list"
  fallingBlock :: Tetromino
  nextBlock :: Tetromino
  score :: int
  level :: int

text \<open>
  \<^verbatim>\<open>initialState\<close> picks its two pieces with \<^verbatim>\<open>Math.floor(Math.random() * 7)\<close>; the two
  indices are the arguments.
\<close>

definition initialState :: "nat \<Rightarrow> nat \<Rightarrow> State" where
  "initialState i j =
    \<lparr>gameEnd = False,
     grid = replicate (nat GRID_HEIGHT) (replicate (nat GRID_WIDTH) 0),
     fallingBlock = tetrominoes ! i,
     nextBlock = tetrominoes ! j,
     score = 0,
     level = 1\<rparr>"

text \<open>The events the reducer is folded over: \<^verbatim>\<open>new Move(x, y)\<close> and \<^verbatim>\<open>new Rotate()\<close>.\<close>

datatype Event = Move int int | Rotate

datatype error = TypeError | Unmodelled

subsection \<open>Array methods with an index\<close>

text \<open>
  \<^verbatim>\<open>xs.reduce((acc, v, i) => ..., init)\<close> where the callback may raise, and
  \<^verbatim>\<open>xs.some((v, i) => ...)\<close>. The index starts at the third argument.
\<close>

fun reduceI :: "('b \<Rightarrow> 'a \<Rightarrow> nat \<Rightarrow> error + 'b) \<Rightarrow> 'a list \<Rightarrow> nat \<Rightarrow> 'b \<Rightarrow> error + 'b" where
  "reduceI f [] i acc = Inr acc"
| "reduceI f (v # vs) i acc =
     (case f acc v i of Inl e \<Rightarrow> Inl e | Inr acc' \<Rightarrow> reduceI f vs (Suc i) acc')"

fun someI :: "('a \<Rightarrow> nat \<Rightarrow> bool) \<Rightarrow> 'a list \<Rightarrow> nat \<Rightarrow> bool" where
  "someI p [] i = False"
| "someI p (v # vs) i = (p v i \<or> someI p vs (Suc i))"

subsection \<open>Rotation\<close>

definition tetrominoRotation :: "int list list \<Rightarrow> error + int list list" where
  "tetrominoRotation sh =
     (case sh of
        [] \<Rightarrow> Inl TypeError
      | r0 # _ \<Rightarrow>
          if list_ex (\<lambda>row. length row < length r0) sh then Inl Unmodelled
          else Inr (map (\<lambda>columnIndex. rev (map (\<lambda>row. row ! columnIndex) sh))
                        [0..<length r0]))"

subsection \<open>Merging a piece into a board\<close>

definition mergeCell :: "Tetromino \<Rightarrow> nat \<Rightarrow> int list list \<Rightarrow> int \<Rightarrow> nat \<Rightarrow> error + int list list" where
  "mergeCell b sy innerAcc cell sx =
     (if cell \<noteq> 0 then
        (let gridX = x b + int sx; gridY = y b + int sy in
         if 0 \<le> gridY \<and> gridY \<le> GRID_HEIGHT \<and> 0 \<le> gridX \<and> gridX < GRID_WIDTH then
           (if nat gridY < length innerAcc then
              (if nat gridX < length (innerAcc ! nat gridY)
                  \<and> innerAcc ! nat gridY ! nat gridX \<le> 0
               then Inr (innerAcc[nat gridY := (innerAcc ! nat gridY)[nat gridX := color b]])
               else Inr innerAcc)
            else Inl TypeError)
         else Inr innerAcc)
      else Inr innerAcc)"

definition mergeBlockWithBlock :: "int list list \<Rightarrow> Tetromino \<Rightarrow> error + int list list" where
  "mergeBlockWithBlock g b =
     reduceI (\<lambda>outerAcc row sy. reduceI (mergeCell b sy) row 0 outerAcc) (shape b) 0 g"

subsection \<open>Collision\<close>

definition collisionCell :: "int list list \<Rightarrow> Tetromino \<Rightarrow> int \<Rightarrow> int \<Rightarrow> nat \<Rightarrow> int \<Rightarrow> nat \<Rightarrow> bool" where
  "collisionCell g b offsetX offsetY shapeY shapeCell shapeX =
     (if shapeCell \<noteq> 0 then
        (let blockX = x b + int shapeX; blockY = y b + int shapeY;
             targetX = blockX + offsetX; targetY = blockY + offsetY
         in targetX < 0 \<or> GRID_WIDTH \<le> targetX \<or> GRID_HEIGHT \<le> targetY \<or>
            (0 \<le> targetY \<and> nat targetY < length g \<and>
             (length (g ! nat targetY) \<le> nat targetX \<or> g ! nat targetY ! nat targetX \<noteq> 0)))
      else False)"

definition collisionChecker :: "int list list \<Rightarrow> Tetromino \<Rightarrow> int \<Rightarrow> int \<Rightarrow> bool" where
  "collisionChecker g b offsetX offsetY =
     someI (\<lambda>shapeRow shapeY. someI (collisionCell g b offsetX offsetY shapeY) shapeRow 0)
       (shape b) 0"

subsection \<open>Drawing a piece\<close>

definition getRandomTetromino :: "nat \<Rightarrow> Tetromino" where
  "getRandomTetromino randomIndex = (tetrominoes ! randomIndex)\<lparr>x := 4, y := 0\<rparr>"

subsection \<open>Locking\<close>

definition lockBlockChecker :: "Tetromino \<Rightarrow> int list list \<Rightarrow> bool" where
  "lockBlockChecker b g =
     (if y b + int (length (shape b)) > GRID_HEIGHT - 1 then True
      else if collisionChecker g b 0 1 then True
      else if y b < -1 then True
      else False)"

definition lockCell :: "Tetromino \<Rightarrow> nat \<Rightarrow> int list list \<Rightarrow> int \<Rightarrow> nat \<Rightarrow> error + int list list" where
  "lockCell b sy rowAcc cell sx =
     (if cell \<noteq> 0 then
        (let occupiedGridX = x b + int sx; occupiedGridY = y b + int sy in
         if 0 \<le> occupiedGridY \<and> nat occupiedGridY < length rowAcc then
           (if occupiedGridX < 0 then Inr rowAcc
            else if nat occupiedGridX < length (rowAcc ! nat occupiedGridY) then
              Inr (rowAcc[nat occupiedGridY :=
                     (rowAcc ! nat occupiedGridY)[nat occupiedGridX := color b]])
            else Inl Unmodelled)
         else Inl TypeError)
      else Inr rowAcc)"

text \<open>
  \<open>lockInWrite\<close> is the second \<^verbatim>\<open>reduce\<close> of \<^verbatim>\<open>lockBlock\<close>, the one that builds
  \<^verbatim>\<open>lockedGrid\<close> from \<^verbatim>\<open>[...newGrid]\<close>. The rows it writes are those of \<^verbatim>\<open>newGrid\<close>,
  which is not read again.
\<close>

definition lockInWrite :: "int list list \<Rightarrow> Tetromino \<Rightarrow> error + int list list" where
  "lockInWrite newGrid b =
     reduceI (\<lambda>gridAcc row sy. reduceI (lockCell b sy) row 0 gridAcc) (shape b) 0 newGrid"

definition lockBlock :: "nat \<Rightarrow> State \<Rightarrow> Tetromino \<Rightarrow> error + State" where
  "lockBlock randomIndex s b =
     (case mergeBlockWithBlock (grid s) b of
        Inl e \<Rightarrow> Inl e
      | Inr newGrid \<Rightarrow>
          (let nextBlock' = getRandomTetromino randomIndex in
           case newGrid of
             [] \<Rightarrow> Inl TypeError
           | row0 # _ \<Rightarrow>
               if list_ex (\<lambda>cell. cell \<noteq> 0) row0 then Inr (s\<lparr>gameEnd := True\<rparr>)
               else
                 (case lockInWrite newGrid b of
                    Inl e \<Rightarrow> Inl e
                  | Inr lockedGrid \<Rightarrow>
                      Inr (s\<lparr>grid := lockedGrid, fallingBlock := nextBlock',
                             nextBlock := nextBlock'\<rparr>))))"

subsection \<open>Clearing rows\<close>

text \<open>
  The score is a JavaScript number, a double. Every score of a game is an integer, and
  the model holds it as an \<open>int\<close>; the sum \<^verbatim>\<open>score + clearedRowCount * 100\<close> and the
  quotient \<^verbatim>\<open>Score / 500\<close> are rounded as the code rounds them, to the nearest double,
  a tie going to the even mantissa. A double is written \<open>m * 2 ^ e\<close> with \<open>\<bar>m\<bar> < 2 ^ 53\<close>;
  \<open>nearestDouble p d\<close> is the pair \<open>(m, e)\<close> of the double nearest to the fraction
  \<open>p / d\<close>, for \<open>0 < d\<close>, with \<open>2 ^ 52 \<le> \<bar>m\<bar>\<close> unless \<open>p = 0\<close>, or \<open>\<bar>m\<bar> = 2 ^ 53\<close> when the
  mantissa rounds up to the next power of two. The model has no smallest and no largest
  exponent. None is needed: a quotient of an integer by 500 is 0 or at least a 500th,
  far above the subnormal numbers; and a sum overflows to \<^verbatim>\<open>Infinity\<close> only from
  \<open>2 ^ 1024 - 2 ^ 970\<close> on, which the sum of a finite double and \<open>100 * k\<close> does not reach
  while \<open>k\<close> is the number of rows of a JavaScript array, below \<open>2 ^ 32\<close>.
\<close>

function bitLength :: "int \<Rightarrow> nat" where
  "bitLength n = (if n \<le> 0 then 0 else Suc (bitLength (n div 2)))"
  by pat_completeness auto
termination
  by (relation "measure nat") auto

declare bitLength.simps [simp del]

definition scaled :: "int \<Rightarrow> int \<Rightarrow> int \<Rightarrow> int \<times> int" where
  "scaled num den e = (if 0 \<le> e then (num, den * 2 ^ nat e) else (num * 2 ^ nat (- e), den))"

definition doubleExponent :: "int \<Rightarrow> int \<Rightarrow> int" where
  "doubleExponent a d =
     (let l = int (bitLength a) - int (bitLength d)
      in case scaled a d l of (n1, d1) \<Rightarrow> if d1 \<le> n1 then l - 52 else l - 53)"

definition nearestDouble :: "int \<Rightarrow> int \<Rightarrow> int \<times> int" where
  "nearestDouble p d =
     (if p = 0 then (0, 0)
      else (let e = doubleExponent \<bar>p\<bar> d in
            case scaled \<bar>p\<bar> d e of
              (n2, d2) \<Rightarrow>
                (let qt = n2 div d2; rm = n2 mod d2;
                     mant = (if d2 < 2 * rm \<or> (2 * rm = d2 \<and> odd qt) then qt + 1 else qt)
                 in (sgn p * mant, e))))"

text \<open>The integer part of a double, which is what \<^verbatim>\<open>| 0\<close> first takes of its operand.\<close>

definition truncDouble :: "int \<times> int \<Rightarrow> int" where
  "truncDouble me = (case me of (m, e) \<Rightarrow>
       if 0 \<le> e then m * 2 ^ nat e else sgn m * (\<bar>m\<bar> div 2 ^ nat (- e)))"

text \<open>
  \<open>doubleSum a b\<close> is \<^verbatim>\<open>a + b\<close> on two integers: the double nearest to the sum, an
  integer again. \<open>doubleQuotient p d\<close> is the integer part of \<^verbatim>\<open>p / d\<close>. The integers
  that a double holds are those that rounding leaves as they are, below \<open>2 ^ 1024\<close>.
\<close>

definition doubleSum :: "int \<Rightarrow> int \<Rightarrow> int" where
  "doubleSum a b = truncDouble (nearestDouble (a + b) 1)"

definition doubleQuotient :: "int \<Rightarrow> int \<Rightarrow> int" where
  "doubleQuotient p d = truncDouble (nearestDouble p d)"

definition integerDouble :: "int \<Rightarrow> bool" where
  "integerDouble n = (doubleSum n 0 = n \<and> \<bar>n\<bar> < 2 ^ 1024)"

text \<open>
  \<^verbatim>\<open>v | 0\<close> takes the integer part of \<open>v\<close> and wraps it into the signed 32-bit range.
\<close>

definition toInt32 :: "int \<Rightarrow> int" where
  "toInt32 v = (v + 2 ^ 31) mod 2 ^ 32 - 2 ^ 31"

definition clearAndMoveRows :: "int list list \<Rightarrow> int \<Rightarrow> int \<Rightarrow> int list list \<times> int \<times> int" where
  "clearAndMoveRows g sc lv =
     (let clearedRows = filter (\<lambda>row. list_ex (\<lambda>cell. cell = 0) row) g;
          clearedRowCount = length g - length clearedRows;
          newRows = replicate clearedRowCount (replicate (nat GRID_WIDTH) 0);
          Score = doubleSum sc (int clearedRowCount * 100);
          newLevel = toInt32 (doubleQuotient Score 500) + 1
      in (newRows @ clearedRows, Score, newLevel))"

subsection \<open>The reducer\<close>

text \<open>
  \<open>applyMovement\<close> is the first part of the body of \<^verbatim>\<open>stateUpdater\<close> (the copy of the
  falling piece, moved or rotated), \<open>clampBlock\<close> the two tests against the walls that
  follow it, and \<open>movedBlock\<close> their composition: the piece the reducer goes on with.
\<close>

definition applyMovement :: "State \<Rightarrow> Event \<Rightarrow> error + Tetromino" where
  "applyMovement s movement =
     (let newFallingBlock = fallingBlock s in
      case movement of
        Move dx dy \<Rightarrow> Inr (newFallingBlock\<lparr>x := x newFallingBlock + dx, y := y newFallingBlock + dy\<rparr>)
      | Rotate \<Rightarrow>
          (case tetrominoRotation (shape newFallingBlock) of
             Inl e \<Rightarrow> Inl e
           | Inr rotatedBlock \<Rightarrow>
               if \<not> collisionChecker (grid s) (newFallingBlock\<lparr>shape := rotatedBlock\<rparr>) 0 0
               then Inr (newFallingBlock\<lparr>shape := rotatedBlock\<rparr>)
               else Inr newFallingBlock))"

definition clampBlock :: "Tetromino \<Rightarrow> error + Tetromino" where
  "clampBlock b =
     (let b1 = (if x b < 0 then b\<lparr>x := 0\<rparr> else b) in
      case shape b1 of
        [] \<Rightarrow> Inl TypeError
      | r0 # _ \<Rightarrow>
          Inr (if x b1 + int (length r0) > GRID_WIDTH
               then b1\<lparr>x := GRID_WIDTH - int (length r0)\<rparr> else b1))"

definition movedBlock :: "State \<Rightarrow> Event \<Rightarrow> error + Tetromino" where
  "movedBlock s movement =
     (case applyMovement s movement of Inl e \<Rightarrow> Inl e | Inr b \<Rightarrow> clampBlock b)"

definition stateUpdater :: "nat \<Rightarrow> State \<Rightarrow> Event \<Rightarrow> error + State" where
  "stateUpdater randomIndex s movement =
     (case movedBlock s movement of
        Inl e \<Rightarrow> Inl e
      | Inr newFallingBlock \<Rightarrow>
          if lockBlockChecker newFallingBlock (grid s) then lockBlock randomIndex s newFallingBlock
          else if y newFallingBlock < -1 then Inr (s\<lparr>gameEnd := True\<rparr>)
          else
            (case clearAndMoveRows (grid s) (score s) (level s) of
               (newGrid, newScore, newLevel) \<Rightarrow>
                 Inr (s\<lparr>grid := newGrid, fallingBlock := newFallingBlock,
                        score := newScore, level := newLevel\<rparr>)))"

text \<open>Folding the reducer over a list of events, each with the index its draw would give.\<close>

fun runEvents :: "State \<Rightarrow> (nat \<times> Event) list \<Rightarrow> error + State" where
  "runEvents s [] = Inr s"
| "runEvents s ((i, e) # es) =
     (case stateUpdater i s e of Inl err \<Rightarrow> Inl err | Inr s' \<Rightarrow> runEvents s' es)"

subsection \<open>Notions of the specification\<close>

text \<open>
  A row is complete when none of its cells is 0: the rows that the filter of
  \<^verbatim>\<open>clearAndMoveRows\<close> drops. \<open>shapeWidth\<close> is \<^verbatim>\<open>shape[0].length\<close>, the width the clamp
  uses. \<open>keepsCompleteRows g g'\<close> says that \<open>g'\<close> has the height of \<open>g\<close> and that every
  row complete in \<open>g\<close> is complete in \<open>g'\<close>.
\<close>

definition rowComplete :: "int list \<Rightarrow> bool" where
  "rowComplete row = (\<not> list_ex (\<lambda>cell. cell = 0) row)"

definition shapeWidth :: "Tetromino \<Rightarrow> int" where
  "shapeWidth b = (case shape b of [] \<Rightarrow> 0 | r0 # _ \<Rightarrow> int (length r0))"

definition keepsCompleteRows :: "int list list \<Rightarrow> int list list \<Rightarrow> bool" where
  "keepsCompleteRows g g' =
     (length g' = length g
      \<and> list_all (\<lambda>r. if rowComplete (g ! r) then rowComplete (g' ! r) else True)
           [0..<length g])"

text \<open>
  \<open>keepsCells g g'\<close> says that \<open>g'\<close> has the height and the row lengths of \<open>g\<close> and
  that every cell positive in \<open>g\<close> has the same value in \<open>g'\<close>.
\<close>

definition keepsCells :: "int list list \<Rightarrow> int list list \<Rightarrow> bool" where
  "keepsCells g g' =
     (length g' = length g
      \<and> (\<forall>r<length g. length (g' ! r) = length (g ! r)
            \<and> (\<forall>c<length (g ! r). 0 < g ! r ! c \<longrightarrow> g' ! r ! c = g ! r ! c)))"

subsection \<open>The states of a game\<close>

text \<open>
  \<open>allShapes\<close> lists the catalogue shapes with their quarter turns, \<open>rotated\<close> being the
  result of \<^verbatim>\<open>tetrominoRotation\<close> where it returns one. \<open>shapeOK\<close> says that a shape is a
  rectangle of at most four rows and between one and four columns in which every row
  holds a cell other than 0. \<open>gridDims\<close> says that a board has 20 rows of 10 cells.
  \<open>fitsBoard\<close> describes a piece whose cells lie in the columns of the board and above
  its floor; \<open>goodPiece\<close> a falling piece as a game leaves it after an event that did not
  lock it: not above row \<open>-1\<close>, its lowest row above the bottom row. \<open>reducerInvariant\<close>
  puts the two together, and \<open>gameEvent\<close> describes the events the program generates:
  \<^verbatim>\<open>Move(-1, 0)\<close>, \<^verbatim>\<open>Move(1, 0)\<close>, \<^verbatim>\<open>Move(0, 1)\<close> and \<^verbatim>\<open>Rotate\<close>, or more generally every
  move that goes down by zero rows or by one.
\<close>

definition rotated :: "int list list \<Rightarrow> int list list" where
  "rotated sh = (case tetrominoRotation sh of Inl _ \<Rightarrow> sh | Inr r \<Rightarrow> r)"

definition allShapes :: "int list list list" where
  "allShapes =
     concat (map (\<lambda>t. [shape t, rotated (shape t), rotated (rotated (shape t)),
                        rotated (rotated (rotated (shape t)))]) tetrominoes)"

definition shapeOK :: "int list list \<Rightarrow> bool" where
  "shapeOK sh =
     (case sh of
        [] \<Rightarrow> False
      | r0 # _ \<Rightarrow>
          length sh \<le> 4 \<and> 1 \<le> length r0 \<and> length r0 \<le> 4
          \<and> list_all (\<lambda>row. length row = length r0 \<and> list_ex (\<lambda>cell. cell \<noteq> 0) row) sh)"

definition gridDims :: "int list list \<Rightarrow> bool" where
  "gridDims g = (length g = 20 \<and> list_all (\<lambda>row. length row = 10) g)"

definition fitsBoard :: "Tetromino \<Rightarrow> bool" where
  "fitsBoard b =
     (shape b \<in> set allShapes \<and> color b \<noteq> 0 \<and> 0 \<le> x b
      \<and> x b + shapeWidth b \<le> GRID_WIDTH \<and> y b + int (length (shape b)) \<le> GRID_HEIGHT)"

definition goodPiece :: "Tetromino \<Rightarrow> bool" where
  "goodPiece b =
     (shape b \<in> set allShapes \<and> color b \<noteq> 0 \<and> 0 \<le> x b
      \<and> x b + shapeWidth b \<le> GRID_WIDTH \<and> -1 \<le> y b
      \<and> y b + int (length (shape b)) \<le> GRID_HEIGHT - 1)"

definition reducerInvariant :: "State \<Rightarrow> bool" where
  "reducerInvariant s = (gridDims (grid s) \<and> goodPiece (fallingBlock s))"

definition gameEvent :: "Event \<Rightarrow> bool" where
  "gameEvent e = (case e of Move dx dy \<Rightarrow> dy = 0 \<or> dy = 1 | Rotate \<Rightarrow> True)"

subsection \<open>Score and level along a game\<close>

text \<open>
  \<open>levelOf a\<close> is the level that \<^verbatim>\<open>clearAndMoveRows\<close> computes from the score \<open>a\<close>, and
  \<open>scoreAfter\<close> is what a call that finds \<open>k\<close> complete rows makes of score and level.
  \<open>rowCounts s es\<close> lists, for the events of \<open>es\<close> that do not lock, the number of
  complete rows of the board they receive: the calls of \<^verbatim>\<open>clearAndMoveRows\<close> of a game.
\<close>

definition levelOf :: "int \<Rightarrow> int" where
  "levelOf a = toInt32 (doubleQuotient a 500) + 1"

definition scoreAfter :: "int \<times> int \<Rightarrow> nat \<Rightarrow> int \<times> int" where
  "scoreAfter sl k =
     (doubleSum (fst sl) (int k * 100), levelOf (doubleSum (fst sl) (int k * 100)))"

fun rowCounts :: "State \<Rightarrow> (nat \<times> Event) list \<Rightarrow> nat list" where
  "rowCounts s [] = []"
| "rowCounts s ((i, e) # es) =
     (case stateUpdater i s e of
        Inl err \<Rightarrow> []
      | Inr s' \<Rightarrow>
          (case movedBlock s e of
             Inl err \<Rightarrow> []
           | Inr b \<Rightarrow>
               if lockBlockChecker b (grid s) then rowCounts s' es
               else length (filter rowComplete (grid s)) # rowCounts s' es))"

subsection \<open>Example states\<close>

text \<open>Concrete boards and states on which the theorems below are evaluated.\<close>

definition emptyRow :: "int list" where
  "emptyRow = [0, 0, 0, 0, 0, 0, 0, 0, 0, 0]"

definition emptyGrid :: "int list list" where
  "emptyGrid = replicate 20 emptyRow"

definition pileRow :: "int list" where
  "pileRow = [0, 0, 0, 0, 1, 1, 0, 0, 0, 0]"

text \<open>An O piece one row above its resting place on an empty board; an I piece is queued.\<close>

definition lockExample :: State where
  "lockExample =
     \<lparr>gameEnd = False, grid = emptyGrid,
      fallingBlock = \<lparr>shape = [[1, 1], [1, 1]], color = 1, x = 4, y = 17\<rparr>,
      nextBlock = \<lparr>shape = [[1, 1, 1, 1]], color = 2, x = 4, y = -1\<rparr>,
      score = 0, level = 1\<rparr>"

definition lockExampleBlock :: Tetromino where
  "lockExampleBlock = \<lparr>shape = [[1, 1], [1, 1]], color = 1, x = 4, y = 18\<rparr>"

text \<open>What \<open>Move 0 1\<close> makes of \<open>lockExample\<close> when the draw gives index 2 (the T piece).\<close>

definition lockExampleResult :: State where
  "lockExampleResult =
     \<lparr>gameEnd = False,
      grid = replicate 18 emptyRow @ [pileRow, pileRow],
      fallingBlock = \<lparr>shape = [[0, 1, 0], [1, 1, 1]], color = 3, x = 4, y = 0\<rparr>,
      nextBlock = \<lparr>shape = [[0, 1, 0], [1, 1, 1]], color = 3, x = 4, y = 0\<rparr>,
      score = 0, level = 1\<rparr>"

text \<open>
  A board whose columns 4 and 5 are filled from row 2 down, with a newly drawn O piece
  above the pile: the state after nine O pieces have fallen under gravity alone.
  \<open>endedExample\<close> is the state a \<open>Rotate\<close> event makes of it, and \<open>endedExampleTick\<close>
  the state one more \<open>Move 0 1\<close> makes of that (draw 3, the L piece).
\<close>

definition stackExample :: State where
  "stackExample =
     \<lparr>gameEnd = False, grid = replicate 2 emptyRow @ replicate 18 pileRow,
      fallingBlock = \<lparr>shape = [[1, 1], [1, 1]], color = 1, x = 4, y = 0\<rparr>,
      nextBlock = \<lparr>shape = [[1, 1], [1, 1]], color = 1, x = 4, y = 0\<rparr>,
      score = 0, level = 1\<rparr>"

definition endedExample :: State where
  "endedExample = stackExample\<lparr>gameEnd := True\<rparr>"

definition endedExampleTick :: State where
  "endedExampleTick =
     \<lparr>gameEnd = True, grid = emptyRow # replicate 19 pileRow,
      fallingBlock = \<lparr>shape = [[1, 1, 1], [1, 0, 0]], color = 4, x = 4, y = 0\<rparr>,
      nextBlock = \<lparr>shape = [[1, 1, 1], [1, 0, 0]], color = 4, x = 4, y = 0\<rparr>,
      score = 0, level = 1\<rparr>"

text \<open>
  The pile again, with the right part of the bottom row filled by an I piece, and a
  second I piece about to fill the left part. \<open>clearEvents\<close> is a game that leads there
  from an initial state. \<open>clearExampleLocked\<close> is the state after the I piece has locked
  (draw 0, the O piece) and \<open>clearExampleNext\<close> the state after one more \<open>Move 0 1\<close>.
\<close>

definition clearExampleBefore :: State where
  "clearExampleBefore =
     \<lparr>gameEnd = False,
      grid = replicate 2 emptyRow @ replicate 17 pileRow @ [[0, 0, 0, 0, 1, 1, 2, 2, 2, 2]],
      fallingBlock = \<lparr>shape = [[1, 1, 1, 1]], color = 2, x = 0, y = 18\<rparr>,
      nextBlock = \<lparr>shape = [[1, 1, 1, 1]], color = 2, x = 4, y = 0\<rparr>,
      score = 0, level = 1\<rparr>"

definition clearExampleBlock :: Tetromino where
  "clearExampleBlock = \<lparr>shape = [[1, 1, 1, 1]], color = 2, x = 0, y = 19\<rparr>"

definition clearExampleLocked :: State where
  "clearExampleLocked =
     \<lparr>gameEnd = False,
      grid = replicate 2 emptyRow @ replicate 17 pileRow @ [[2, 2, 2, 2, 1, 1, 2, 2, 2, 2]],
      fallingBlock = \<lparr>shape = [[1, 1], [1, 1]], color = 1, x = 4, y = 0\<rparr>,
      nextBlock = \<lparr>shape = [[1, 1], [1, 1]], color = 1, x = 4, y = 0\<rparr>,
      score = 0, level = 1\<rparr>"

definition clearExampleNext :: State where
  "clearExampleNext =
     \<lparr>gameEnd = False,
      grid = emptyRow # replicate 18 pileRow @ [[2, 2, 2, 2, 1, 1, 2, 2, 2, 2]],
      fallingBlock = \<lparr>shape = [[1, 1], [1, 1]], color = 1, x = 4, y = 0\<rparr>,
      nextBlock = \<lparr>shape = [[1, 1], [1, 1]], color = 1, x = 4, y = 0\<rparr>,
      score = 0, level = 1\<rparr>"

definition clearEvents :: "(nat \<times> Event) list" where
  "clearEvents =
     replicate 2 (0, Move 1 0) @ replicate 20 (0, Move 0 1)
     @ replicate 89 (0, Move 0 1) @ [(1, Move 0 1)]
     @ replicate 4 (0, Move (-1) 0) @ replicate 18 (0, Move 0 1)"

text \<open>
  An O piece locked at the bottom and an I piece lying beside it in row 18; \<open>Move 1 0\<close>
  pushes the I piece over the O piece. \<open>overwriteEvents\<close> is a game that leads there.
\<close>

definition overwriteExample :: State where
  "overwriteExample =
     \<lparr>gameEnd = False, grid = replicate 18 emptyRow @ [pileRow, pileRow],
      fallingBlock = \<lparr>shape = [[1, 1, 1, 1]], color = 2, x = 0, y = 18\<rparr>,
      nextBlock = \<lparr>shape = [[1, 1, 1, 1]], color = 2, x = 4, y = 0\<rparr>,
      score = 0, level = 1\<rparr>"

definition overwriteExampleBlock :: Tetromino where
  "overwriteExampleBlock = \<lparr>shape = [[1, 1, 1, 1]], color = 2, x = 1, y = 18\<rparr>"

definition overwriteExampleResult :: State where
  "overwriteExampleResult =
     \<lparr>gameEnd = False,
      grid = replicate 18 emptyRow @ [[0, 2, 2, 2, 2, 1, 0, 0, 0, 0], pileRow],
      fallingBlock = \<lparr>shape = [[1, 1], [1, 1]], color = 1, x = 4, y = 0\<rparr>,
      nextBlock = \<lparr>shape = [[1, 1], [1, 1]], color = 1, x = 4, y = 0\<rparr>,
      score = 0, level = 1\<rparr>"

definition overwriteEvents :: "(nat \<times> Event) list" where
  "overwriteEvents =
     replicate 18 (0, Move 0 1) @ [(1, Move 0 1)]
     @ replicate 4 (0, Move (-1) 0) @ replicate 18 (0, Move 0 1)"

text \<open>
  A state no game reaches: the anchor column of the O piece is 12, outside the board.
  In \<open>outOfRangePileExample\<close> a pile stands where the clamp would put the piece.
\<close>

definition outOfRangeExample :: State where
  "outOfRangeExample =
     \<lparr>gameEnd = False, grid = emptyGrid,
      fallingBlock = \<lparr>shape = [[1, 1], [1, 1]], color = 1, x = 12, y = 0\<rparr>,
      nextBlock = \<lparr>shape = [[1, 1], [1, 1]], color = 1, x = 4, y = 0\<rparr>,
      score = 0, level = 1\<rparr>"

definition outOfRangePileExample :: State where
  "outOfRangePileExample =
     outOfRangeExample
       \<lparr>grid := replicate 2 emptyRow @ replicate 18 [0, 0, 0, 0, 0, 0, 0, 0, 1, 1]\<rparr>"

text \<open>
  A T piece that 18 gravity ticks have brought to row 17 of an empty board, its lower row
  on the floor, and what \<open>Rotate\<close> makes of it when the draw gives index 1 (the I piece).
\<close>

definition rotateLockExample :: State where
  "rotateLockExample =
     \<lparr>gameEnd = False, grid = emptyGrid,
      fallingBlock = \<lparr>shape = [[0, 1, 0], [1, 1, 1]], color = 3, x = 4, y = 17\<rparr>,
      nextBlock = \<lparr>shape = [[1, 1], [1, 1]], color = 1, x = 4, y = -1\<rparr>,
      score = 0, level = 1\<rparr>"

definition rotateLockResult :: State where
  "rotateLockResult =
     \<lparr>gameEnd = False,
      grid = replicate 17 emptyRow
             @ [[0, 0, 0, 0, 3, 0, 0, 0, 0, 0],
                [0, 0, 0, 0, 3, 3, 0, 0, 0, 0],
                [0, 0, 0, 0, 3, 0, 0, 0, 0, 0]],
      fallingBlock = \<lparr>shape = [[1, 1, 1, 1]], color = 2, x = 4, y = 0\<rparr>,
      nextBlock = \<lparr>shape = [[1, 1, 1, 1]], color = 2, x = 4, y = 0\<rparr>,
      score = 0, level = 1\<rparr>"

text \<open>
  Nine O pieces, each moved one column to the right and dropped, pile up in columns 5
  and 6 from row 2 down; the last lock draws a T piece, which appears beside the top of
  the pile.
\<close>

definition rotateEndEvents :: "(nat \<times> Event) list" where
  "rotateEndEvents =
     concat (map (\<lambda>n. (0, Move 1 0) # replicate n (0, Move 0 1)) [19, 16, 14, 12, 10, 8, 6, 4])
     @ [(0, Move 1 0), (0, Move 0 1), (2, Move 0 1)]"

definition rotateEndExample :: State where
  "rotateEndExample =
     \<lparr>gameEnd = False,
      grid = replicate 2 emptyRow @ replicate 18 [0, 0, 0, 0, 0, 1, 1, 0, 0, 0],
      fallingBlock = \<lparr>shape = [[0, 1, 0], [1, 1, 1]], color = 3, x = 4, y = 0\<rparr>,
      nextBlock = \<lparr>shape = [[0, 1, 0], [1, 1, 1]], color = 3, x = 4, y = 0\<rparr>,
      score = 0, level = 1\<rparr>"

text \<open>
  A game that clears two rows again and again. Five O pieces, dropped in columns 0, 2,
  4, 6 and 8, complete rows 18 and 19; \<open>cycleState\<close> is the state after the lock of the
  fifth, which has not cleared them yet. The first event of \<open>cycleEvents\<close> clears them,
  in \<open>cycleCleared\<close>, and the others drop five O pieces more. Every draw gives index 0.
  \<open>dropAt dx moves ticks\<close> is \<open>moves\<close> steps of \<open>dx\<close> columns and then \<open>ticks\<close> gravity ticks.
\<close>

definition fullRow :: "int list" where
  "fullRow = [1, 1, 1, 1, 1, 1, 1, 1, 1, 1]"

definition dropAt :: "int \<Rightarrow> nat \<Rightarrow> nat \<Rightarrow> (nat \<times> Event) list" where
  "dropAt dx moves ticks = replicate moves (0, Move dx 0) @ replicate ticks (0, Move 0 1)"

definition cycleEvents :: "(nat \<times> Event) list" where
  "cycleEvents =
     dropAt (-1) 4 18 @ dropAt (-1) 2 18 @ dropAt 1 0 18 @ dropAt 1 2 18 @ dropAt 1 4 18"

definition firstRowsEvents :: "(nat \<times> Event) list" where
  "firstRowsEvents =
     dropAt (-1) 4 19 @ dropAt (-1) 2 18 @ dropAt 1 0 18 @ dropAt 1 2 18 @ dropAt 1 4 18"

definition cycleState :: State where
  "cycleState =
     \<lparr>gameEnd = False, grid = replicate 18 emptyRow @ [fullRow, fullRow],
      fallingBlock = \<lparr>shape = [[1, 1], [1, 1]], color = 1, x = 4, y = 0\<rparr>,
      nextBlock = \<lparr>shape = [[1, 1], [1, 1]], color = 1, x = 4, y = 0\<rparr>,
      score = 0, level = 1\<rparr>"

definition cycleCleared :: State where
  "cycleCleared =
     \<lparr>gameEnd = False, grid = emptyGrid,
      fallingBlock = \<lparr>shape = [[1, 1], [1, 1]], color = 1, x = 3, y = 0\<rparr>,
      nextBlock = \<lparr>shape = [[1, 1], [1, 1]], color = 1, x = 4, y = 0\<rparr>,
      score = 0, level = 1\<rparr>"

section \<open>Case analysis of the reducer\<close>

lemma lockBlock_gameEnd: "lockBlock i s b = Inr s' \<Longrightarrow> gameEnd s \<Longrightarrow> gameEnd s'"
  by (auto simp: lockBlock_def Let_def split: sum.splits list.splits if_splits)

text \<open>
  A call of \<^verbatim>\<open>lockBlock\<close> that returns took one of two ways: the merged board has a
  non-empty top row and the state comes back with only \<open>gameEnd\<close> set, or the piece is
  written into the board and the drawn piece is stored twice.
\<close>

lemma lockBlock_cases:
  assumes "lockBlock i s b = Inr s'"
  obtains (ended) row0 rows where "mergeBlockWithBlock (grid s) b = Inr (row0 # rows)"
      "list_ex (\<lambda>cell. cell \<noteq> 0) row0" "s' = s\<lparr>gameEnd := True\<rparr>"
  | (locked) row0 rows lockedGrid where "mergeBlockWithBlock (grid s) b = Inr (row0 # rows)"
      "\<not> list_ex (\<lambda>cell. cell \<noteq> 0) row0" "lockInWrite (row0 # rows) b = Inr lockedGrid"
      "s' = s\<lparr>grid := lockedGrid, fallingBlock := getRandomTetromino i,
              nextBlock := getRandomTetromino i\<rparr>"
  using assms
  by (auto simp: lockBlock_def Let_def split: sum.splits list.splits if_splits)

text \<open>
  Once the moved piece is known, \<^verbatim>\<open>stateUpdater\<close> either locks it or stores it and
  clears rows; the branch \<^verbatim>\<open>newFallingBlock.y < -1\<close> after the lock test is never taken,
  because \<^verbatim>\<open>lockBlockChecker\<close> already answers true there.
\<close>

lemma stateUpdater_unfold:
  assumes "movedBlock s e = Inr b"
  shows "stateUpdater i s e =
     (if lockBlockChecker b (grid s) then lockBlock i s b
      else Inr (s\<lparr>grid := fst (clearAndMoveRows (grid s) (score s) (level s)),
              fallingBlock := b,
              score := fst (snd (clearAndMoveRows (grid s) (score s) (level s))),
              level := snd (snd (clearAndMoveRows (grid s) (score s) (level s)))\<rparr>))"
proof (cases "lockBlockChecker b (grid s)")
  case True
  with assms show ?thesis by (simp add: stateUpdater_def)
next
  case False
  then have "\<not> y b < -1" by (auto simp: lockBlockChecker_def split: if_splits)
  with False assms show ?thesis by (auto simp: stateUpdater_def split: prod.splits)
qed

lemma stateUpdater_cases:
  assumes "stateUpdater i s e = Inr s'"
  obtains (lock) b where "movedBlock s e = Inr b" "lockBlockChecker b (grid s)"
      "lockBlock i s b = Inr s'"
  | (move) b where "movedBlock s e = Inr b" "\<not> lockBlockChecker b (grid s)"
      "s' = s\<lparr>grid := fst (clearAndMoveRows (grid s) (score s) (level s)),
              fallingBlock := b,
              score := fst (snd (clearAndMoveRows (grid s) (score s) (level s))),
              level := snd (snd (clearAndMoveRows (grid s) (score s) (level s)))\<rparr>"
proof (cases "movedBlock s e")
  case (Inl err)
  with assms show ?thesis by (simp add: stateUpdater_def)
next
  case (Inr b)
  from assms stateUpdater_unfold[OF Inr, of i] show ?thesis
    by (cases "lockBlockChecker b (grid s)") (auto intro: lock[OF Inr] move[OF Inr])
qed

lemma movedBlock_ignores_gameEnd: "movedBlock (s\<lparr>gameEnd := v\<rparr>) e = movedBlock s e"
  by (cases e) (simp_all add: movedBlock_def applyMovement_def Let_def split: sum.splits)

lemma clampBlock_shape:
  "clampBlock b = Inr b' \<Longrightarrow> shape b' = shape b \<and> color b' = color b \<and> y b' = y b"
  by (auto simp: clampBlock_def Let_def split: list.splits if_splits)

lemma clampBlock_defined: "shape b \<noteq> [] \<Longrightarrow> \<exists>b'. clampBlock b = Inr b'"
  by (auto simp: clampBlock_def Let_def split: list.splits if_splits)

lemma clampBlock_range:
  assumes "clampBlock b = Inr b'" and "shapeWidth b \<le> GRID_WIDTH"
  shows "0 \<le> x b' \<and> x b' \<le> GRID_WIDTH - shapeWidth b'"
  using assms
  by (auto simp: clampBlock_def shapeWidth_def Let_def split: list.splits if_splits)

lemma applyMovement_Move_shape:
  "applyMovement s (Move dx dy) = Inr b \<Longrightarrow> shape b = shape (fallingBlock s)"
  by (auto simp: applyMovement_def Let_def)

lemma movedBlock_Move_range:
  assumes "movedBlock s (Move dx dy) = Inr b"
    and "shapeWidth (fallingBlock s) \<le> GRID_WIDTH"
  shows "0 \<le> x b \<and> x b \<le> GRID_WIDTH - shapeWidth b"
proof -
  from assms(1) obtain b0 where b0: "applyMovement s (Move dx dy) = Inr b0"
    and cl: "clampBlock b0 = Inr b"
    by (auto simp: movedBlock_def split: sum.splits)
  have "shapeWidth b0 = shapeWidth (fallingBlock s)"
    using applyMovement_Move_shape[OF b0] by (simp add: shapeWidth_def)
  with assms(2) clampBlock_range[OF cl] show ?thesis by simp
qed

lemma index_below_7:
  "i < 7 \<Longrightarrow> i = 0 \<or> i = 1 \<or> i = 2 \<or> i = 3 \<or> i = 4 \<or> i = 5 \<or> i = (6::nat)"
  by arith

lemma getRandomTetromino_range:
  assumes "i < 7"
  shows "x (getRandomTetromino i) = 4 \<and> shapeWidth (getRandomTetromino i) \<le> 4
       \<and> 2 \<le> shapeWidth (getRandomTetromino i)"
  using index_below_7[OF assms]
  by (auto simp: getRandomTetromino_def tetrominoes_def shapeWidth_def)

section \<open>Properties of the two reductions over a shape\<close>

lemma reduceI_preserves:
  assumes step: "\<And>acc v i acc'. f acc v i = Inr acc' \<Longrightarrow> P acc \<Longrightarrow> P acc'"
  shows "reduceI f vs i acc = Inr acc' \<Longrightarrow> P acc \<Longrightarrow> P acc'"
proof (induction vs arbitrary: i acc)
  case Nil
  then show ?case by simp
next
  case (Cons v vs)
  then show ?case by (auto split: sum.splits dest: step)
qed

lemma reduceI2_preserves:
  assumes step: "\<And>sy acc v i acc'. f sy acc v i = Inr acc' \<Longrightarrow> P acc \<Longrightarrow> P acc'"
  shows "reduceI (\<lambda>outerAcc row sy. reduceI (f sy) row 0 outerAcc) rows i acc = Inr acc'
         \<Longrightarrow> P acc \<Longrightarrow> P acc'"
  by (rule reduceI_preserves[where P = P and f = "\<lambda>outerAcc row sy. reduceI (f sy) row 0 outerAcc"])
     (auto elim: reduceI_preserves[where P = P, rotated] dest: step)

lemma keepsCompleteRows_iff:
  "keepsCompleteRows g g' \<longleftrightarrow>
     length g' = length g \<and> (\<forall>r<length g. rowComplete (g ! r) \<longrightarrow> rowComplete (g' ! r))"
  by (auto simp: keepsCompleteRows_def list_all_iff)

lemma keepsCompleteRows_trans:
  "keepsCompleteRows g g' \<Longrightarrow> keepsCompleteRows g' g'' \<Longrightarrow> keepsCompleteRows g g''"
  by (auto simp: keepsCompleteRows_iff)

lemma rowComplete_update: "rowComplete row \<Longrightarrow> c \<noteq> 0 \<Longrightarrow> rowComplete (row[n := c])"
  by (auto simp: rowComplete_def list_ex_iff dest!: subsetD[OF set_update_subset_insert])

lemma lockCell_keeps:
  assumes "lockCell b sy acc cell sx = Inr acc'" and "color b \<noteq> 0"
    and "keepsCompleteRows g acc"
  shows "keepsCompleteRows g acc'"
  using assms
  by (auto simp: lockCell_def Let_def keepsCompleteRows_iff nth_list_update rowComplete_update
      split: if_splits)

lemma mergeCell_keeps:
  assumes "mergeCell b sy acc cell sx = Inr acc'" and "color b \<noteq> 0"
    and "keepsCompleteRows g acc"
  shows "keepsCompleteRows g acc'"
  using assms
  by (auto simp: mergeCell_def Let_def keepsCompleteRows_iff nth_list_update rowComplete_update
      split: if_splits)

lemma lockInWrite_keeps:
  assumes "lockInWrite g b = Inr g'" and "color b \<noteq> 0"
  shows "keepsCompleteRows g g'"
proof -
  have "keepsCompleteRows g g" by (simp add: keepsCompleteRows_iff)
  with assms(1) show ?thesis
    unfolding lockInWrite_def
    by (rule reduceI2_preserves[where P = "keepsCompleteRows g" and f = "lockCell b", rotated])
       (rule lockCell_keeps[OF _ assms(2)])
qed

lemma mergeBlockWithBlock_keeps:
  assumes "mergeBlockWithBlock g b = Inr g'" and "color b \<noteq> 0"
  shows "keepsCompleteRows g g'"
proof -
  have "keepsCompleteRows g g" by (simp add: keepsCompleteRows_iff)
  with assms(1) show ?thesis
    unfolding mergeBlockWithBlock_def
    by (rule reduceI2_preserves[where P = "keepsCompleteRows g" and f = "mergeCell b", rotated])
       (rule mergeCell_keeps[OF _ assms(2)])
qed

text \<open>
  \<^verbatim>\<open>mergeBlockWithBlock\<close> by itself leaves every cell that holds a positive value as it is
  (it writes only where the cell is \<open>\<le> 0\<close>), and changes neither the height of the board
  nor the length of a row.
\<close>

lemma mergeCell_keepsCells:
  assumes "mergeCell b sy acc cell sx = Inr acc'" and "keepsCells g acc"
  shows "keepsCells g acc'"
  using assms
  by (auto simp: mergeCell_def Let_def keepsCells_def nth_list_update split: if_splits)

lemma mergeBlockWithBlock_keeps_cells:
  assumes "mergeBlockWithBlock g b = Inr g'"
  shows "keepsCells g g'"
proof -
  have "keepsCells g g" by (simp add: keepsCells_def)
  with assms show ?thesis
    unfolding mergeBlockWithBlock_def
    by (rule reduceI2_preserves[where P = "keepsCells g" and f = "mergeCell b", rotated])
       (rule mergeCell_keepsCells)
qed

section \<open>The example games\<close>

lemma lockExample_moved: "movedBlock lockExample (Move 0 1) = Inr lockExampleBlock"
  by code_simp

lemma lockExample_locks: "lockBlockChecker lockExampleBlock (grid lockExample)"
  by code_simp

lemma lockExample_step: "stateUpdater 2 lockExample (Move 0 1) = Inr lockExampleResult"
  by code_simp

lemma lockExample_lockBlock: "lockBlock 2 lockExample lockExampleBlock = Inr lockExampleResult"
  by code_simp

lemma lockExampleResult_running: "\<not> gameEnd lockExampleResult"
  by code_simp

text \<open>The pile of \<open>stackExample\<close> is what 91 gravity ticks make of an initial state.\<close>

lemma stackExample_reached:
  "runEvents (initialState 0 0) (replicate 91 (0, Move 0 1)) = Inr stackExample"
  by code_simp

lemma endedExample_reached: "stateUpdater 3 stackExample Rotate = Inr endedExample"
  by code_simp

lemma endedExample_ended: "gameEnd endedExample"
  by code_simp

lemma endedExample_tick: "stateUpdater 3 endedExample (Move 0 1) = Inr endedExampleTick"
  by code_simp

lemma clearExampleBefore_reached:
  "runEvents (initialState 1 0) clearEvents = Inr clearExampleBefore"
  by code_simp

lemma clearExample_moved: "movedBlock clearExampleBefore (Move 0 1) = Inr clearExampleBlock"
  by code_simp

lemma clearExample_locks: "lockBlockChecker clearExampleBlock (grid clearExampleBefore)"
  by code_simp

lemma clearExample_step:
  "stateUpdater 0 clearExampleBefore (Move 0 1) = Inr clearExampleLocked"
  by code_simp

lemma overwriteExample_reached:
  "runEvents (initialState 0 0) overwriteEvents = Inr overwriteExample"
  by code_simp

section \<open>The piece that falls after a lock\<close>

text \<open>
  Claim C1, as the code has it. When an event makes the falling piece lock and the game
  goes on, the state returned holds the piece just drawn both as \<open>fallingBlock\<close> and as
  \<open>nextBlock\<close>. The piece that was queued in \<open>nextBlock\<close> is not the one that falls:
  \<open>queued_piece_does_not_fall\<close> below is a state where the two differ.
\<close>

theorem locking_event_spawns_drawn_piece:
  assumes "movedBlock s e = Inr b" and "lockBlockChecker b (grid s)"
    and "stateUpdater i s e = Inr s'" and "\<not> gameEnd s'"
  shows "fallingBlock s' = getRandomTetromino i \<and> nextBlock s' = getRandomTetromino i"
proof -
  from assms(1,2,3) have "lockBlock i s b = Inr s'" by (simp add: stateUpdater_def)
  then show ?thesis using assms(4) by (cases rule: lockBlock_cases) auto
qed

text \<open>The theorem at \<open>lockExample\<close>: the O piece locks and the drawn T piece falls next.\<close>

theorem locking_event_spawns_drawn_piece_witness:
  "movedBlock lockExample (Move 0 1) = Inr lockExampleBlock
   \<and> lockBlockChecker lockExampleBlock (grid lockExample)
   \<and> stateUpdater 2 lockExample (Move 0 1) = Inr lockExampleResult
   \<and> \<not> gameEnd lockExampleResult
   \<and> fallingBlock lockExampleResult = getRandomTetromino 2
   \<and> nextBlock lockExampleResult = getRandomTetromino 2"
  using locking_event_spawns_drawn_piece[OF lockExample_moved lockExample_locks
      lockExample_step lockExampleResult_running]
    lockExample_moved lockExample_locks lockExample_step lockExampleResult_running
  by simp

text \<open>
  The counterexample to claim C1 as the specification states it: the O piece of
  \<open>lockExample\<close> locks on \<open>Move 0 1\<close>, the game goes on, an I piece was queued, and the
  piece that falls next is the T piece that the draw gave.
\<close>

theorem queued_piece_does_not_fall:
  "movedBlock lockExample (Move 0 1) = Inr lockExampleBlock
   \<and> lockBlockChecker lockExampleBlock (grid lockExample)
   \<and> stateUpdater 2 lockExample (Move 0 1) = Inr lockExampleResult
   \<and> \<not> gameEnd lockExampleResult
   \<and> nextBlock lockExample = \<lparr>shape = [[1, 1, 1, 1]], color = 2, x = 4, y = -1\<rparr>
   \<and> fallingBlock lockExampleResult
       = \<lparr>shape = [[0, 1, 0], [1, 1, 1]], color = 3, x = 4, y = 0\<rparr>
   \<and> fallingBlock lockExampleResult \<noteq> nextBlock lockExample"
  by code_simp

text \<open>
  Claim C9. After a lock that does not end the game, \<open>fallingBlock\<close> and \<open>nextBlock\<close> of
  the returned state are one and the same drawn piece: the catalogue entry at the drawn
  index, anchored at \<open>x = 4\<close>, \<open>y = 0\<close>. The piece that was queued plays no part: with any
  other piece \<open>q\<close> queued, \<^verbatim>\<open>lockBlock\<close> returns the same state.
\<close>

theorem lock_stores_drawn_piece_twice:
  assumes "lockBlock i s b = Inr s'" and "\<not> gameEnd s'"
  shows "fallingBlock s' = nextBlock s'
       \<and> fallingBlock s' = getRandomTetromino i
       \<and> shape (fallingBlock s') = shape (tetrominoes ! i)
       \<and> color (fallingBlock s') = color (tetrominoes ! i)
       \<and> x (fallingBlock s') = 4 \<and> y (fallingBlock s') = 0
       \<and> lockBlock i (s\<lparr>nextBlock := q\<rparr>) b = Inr s'"
  using assms
  by (auto simp: lockBlock_def Let_def getRandomTetromino_def
      split: sum.splits list.splits if_splits)

text \<open>The theorem at \<open>lockExample\<close>, with the O piece queued in place of the I piece.\<close>

theorem lock_stores_drawn_piece_twice_witness:
  "lockBlock 2 lockExample lockExampleBlock = Inr lockExampleResult
   \<and> \<not> gameEnd lockExampleResult
   \<and> fallingBlock lockExampleResult = nextBlock lockExampleResult
   \<and> fallingBlock lockExampleResult = getRandomTetromino 2
   \<and> shape (fallingBlock lockExampleResult) = shape (tetrominoes ! 2)
   \<and> color (fallingBlock lockExampleResult) = color (tetrominoes ! 2)
   \<and> x (fallingBlock lockExampleResult) = 4 \<and> y (fallingBlock lockExampleResult) = 0
   \<and> lockBlock 2 (lockExample\<lparr>nextBlock := lockExampleBlock\<rparr>) lockExampleBlock
       = Inr lockExampleResult"
  using lock_stores_drawn_piece_twice[OF lockExample_lockBlock lockExampleResult_running,
      of lockExampleBlock]
    lockExample_lockBlock lockExampleResult_running
  by blast

section \<open>The end of the game\<close>

text \<open>
  Claim C10. The flag \<open>gameEnd\<close> is never reset: a state with \<open>gameEnd\<close> set is taken by
  every event, under every draw, to a state with \<open>gameEnd\<close> set.
\<close>

theorem gameEnd_monotone:
  "gameEnd s \<Longrightarrow> stateUpdater i s e = Inr s' \<Longrightarrow> gameEnd s'"
  by (erule stateUpdater_cases[of i s e s']) (auto dest: lockBlock_gameEnd)

text \<open>The theorem at \<open>endedExample\<close> and a gravity tick.\<close>

theorem gameEnd_monotone_witness:
  "gameEnd endedExample
   \<and> stateUpdater 3 endedExample (Move 0 1) = Inr endedExampleTick
   \<and> gameEnd endedExampleTick"
  using gameEnd_monotone[OF endedExample_ended endedExample_tick]
    endedExample_ended endedExample_tick
  by simp

text \<open>
  Claim C2, as the code has it. The reducer never reads \<open>gameEnd\<close>: on a state with the
  flag set it computes what it computes on the same state without the flag, and returns
  it with the flag set. So the flag stays set; the state comes back unchanged when the
  event makes the piece lock and the merged board has a non-empty top row; in every other
  case the board, the pieces, the score and the level change as they do in a running
  game.
\<close>

theorem ended_state_is_processed_like_a_running_one:
  assumes "gameEnd s"
  shows "stateUpdater i s e =
           (case stateUpdater i (s\<lparr>gameEnd := False\<rparr>) e of
              Inl err \<Rightarrow> Inl err | Inr t \<Rightarrow> Inr (t\<lparr>gameEnd := True\<rparr>))
       \<and> (\<forall>s'. stateUpdater i s e = Inr s' \<longrightarrow> gameEnd s')
       \<and> (\<forall>b row0 rows. movedBlock s e = Inr b \<and> lockBlockChecker b (grid s)
             \<and> mergeBlockWithBlock (grid s) b = Inr (row0 # rows)
             \<and> list_ex (\<lambda>cell. cell \<noteq> 0) row0
            \<longrightarrow> stateUpdater i s e = Inr s)"
proof (intro conjI allI impI)
  show "stateUpdater i s e =
           (case stateUpdater i (s\<lparr>gameEnd := False\<rparr>) e of
              Inl err \<Rightarrow> Inl err | Inr t \<Rightarrow> Inr (t\<lparr>gameEnd := True\<rparr>))"
    using assms
    by (auto simp: stateUpdater_def movedBlock_ignores_gameEnd lockBlock_def Let_def
        split: sum.splits list.splits prod.splits)
next
  fix s' assume "stateUpdater i s e = Inr s'"
  then show "gameEnd s'" using assms
    by (cases rule: stateUpdater_cases) (auto dest: lockBlock_gameEnd)
next
  fix b row0 rows
  assume "movedBlock s e = Inr b \<and> lockBlockChecker b (grid s)
             \<and> mergeBlockWithBlock (grid s) b = Inr (row0 # rows)
             \<and> list_ex (\<lambda>cell. cell \<noteq> 0) row0"
  then show "stateUpdater i s e = Inr s" using assms
    by (simp add: stateUpdater_def lockBlock_def Let_def)
qed

text \<open>
  The theorem at \<open>endedExample\<close>: a \<open>Rotate\<close> event locks the O piece again, the merged
  board has cells in its top row, and the state comes back as it was.
\<close>

theorem ended_state_is_processed_like_a_running_one_witness:
  "gameEnd endedExample
   \<and> movedBlock endedExample Rotate = Inr (fallingBlock endedExample)
   \<and> lockBlockChecker (fallingBlock endedExample) (grid endedExample)
   \<and> mergeBlockWithBlock (grid endedExample) (fallingBlock endedExample)
       = Inr (pileRow # replicate 19 pileRow)
   \<and> list_ex (\<lambda>cell. cell \<noteq> 0) pileRow
   \<and> stateUpdater 3 endedExample Rotate = Inr endedExample"
proof -
  have h: "movedBlock endedExample Rotate = Inr (fallingBlock endedExample)
     \<and> lockBlockChecker (fallingBlock endedExample) (grid endedExample)
     \<and> mergeBlockWithBlock (grid endedExample) (fallingBlock endedExample)
         = Inr (pileRow # replicate 19 pileRow)
     \<and> list_ex (\<lambda>cell. cell \<noteq> 0) pileRow"
    by code_simp
  from ended_state_is_processed_like_a_running_one[OF endedExample_ended, of 3 Rotate]
  have "\<forall>b row0 rows. movedBlock endedExample Rotate = Inr b
          \<and> lockBlockChecker b (grid endedExample)
          \<and> mergeBlockWithBlock (grid endedExample) b = Inr (row0 # rows)
          \<and> list_ex (\<lambda>cell. cell \<noteq> 0) row0
         \<longrightarrow> stateUpdater 3 endedExample Rotate = Inr endedExample"
    by blast
  with h have "stateUpdater 3 endedExample Rotate = Inr endedExample" by blast
  with h endedExample_ended show ?thesis by blast
qed

text \<open>
  The counterexample to claim C2 as the specification states it. \<open>endedExample\<close> is a
  state of a real game (91 gravity ticks, then a rotation that ends the game). One more
  gravity tick locks the O piece into the pile: the board and both pieces change, while
  \<open>gameEnd\<close> stays set.
\<close>

theorem ended_state_still_changes:
  "runEvents (initialState 0 0) (replicate 91 (0, Move 0 1) @ [(3, Rotate)]) = Inr endedExample
   \<and> gameEnd endedExample
   \<and> stateUpdater 3 endedExample (Move 0 1) = Inr endedExampleTick
   \<and> gameEnd endedExampleTick
   \<and> grid endedExampleTick \<noteq> grid endedExample
   \<and> fallingBlock endedExampleTick \<noteq> fallingBlock endedExample
   \<and> nextBlock endedExampleTick \<noteq> nextBlock endedExample"
  by code_simp

section \<open>Clearing rows\<close>

text \<open>Doubles hold the integers up to \<open>2 ^ 53\<close>, and their sums, exactly.\<close>

lemma bitLength_le: "n < 2 ^ k \<Longrightarrow> bitLength n \<le> k"
proof (induction k arbitrary: n)
  case 0
  then show ?case by (simp add: bitLength.simps)
next
  case (Suc k)
  then have "n div 2 < 2 ^ k" by simp
  from Suc.IH[OF this] show ?case by (subst bitLength.simps) simp
qed

lemma bitLength_1: "bitLength 1 = 1" and bitLength_500: "bitLength 500 = 9"
  by code_simp+

lemma truncDouble_exact:
  assumes "e \<le> 0"
  shows "truncDouble (sgn p * (\<bar>p\<bar> * 2 ^ nat (- e)), e) = p"
proof (cases "e = 0")
  case True
  then show ?thesis by (simp add: truncDouble_def mult_sgn_abs)
next
  case False
  with assms have e: "e < 0" by simp
  have "\<bar>sgn p * (\<bar>p\<bar> * 2 ^ nat (- e))\<bar> = \<bar>p\<bar> * 2 ^ nat (- e)"
    by (cases "p = 0") (simp_all add: abs_mult)
  moreover have "sgn (sgn p * (\<bar>p\<bar> * 2 ^ nat (- e))) = sgn p"
    by (cases "p = 0") (simp_all add: sgn_mult)
  ultimately show ?thesis using e by (simp add: truncDouble_def mult_sgn_abs)
qed

lemma doubleSum_exact_below:
  assumes "\<bar>a + b\<bar> < 2 ^ 53"
  shows "doubleSum a b = a + b"
proof (cases "a + b = 0")
  case True
  then show ?thesis by (simp add: doubleSum_def nearestDouble_def truncDouble_def)
next
  case False
  define p where "p = a + b"
  define e where "e = doubleExponent \<bar>p\<bar> 1"
  have "bitLength \<bar>p\<bar> \<le> 53" using assms by (intro bitLength_le) (simp add: p_def)
  then have e: "e \<le> 0"
    by (simp add: e_def doubleExponent_def Let_def bitLength_1 split: prod.splits)
  have sc: "scaled \<bar>p\<bar> 1 e = (\<bar>p\<bar> * 2 ^ nat (- e), 1)"
    using e by (cases "e = 0") (simp_all add: scaled_def)
  have "nearestDouble p 1 = (sgn p * (\<bar>p\<bar> * 2 ^ nat (- e)), e)"
    using False sc by (simp add: nearestDouble_def Let_def p_def[symmetric] e_def[symmetric])
  then show ?thesis using truncDouble_exact[OF e, of p] by (simp add: doubleSum_def p_def)
qed

lemma doubleSum_exact:
  assumes "\<bar>a + b\<bar> \<le> 2 ^ 53"
  shows "doubleSum a b = a + b"
proof -
  have edge: "truncDouble (nearestDouble 9007199254740992 1) = 9007199254740992"
    "truncDouble (nearestDouble (- 9007199254740992) 1) = - 9007199254740992"
    by code_simp+
  consider "\<bar>a + b\<bar> < 2 ^ 53" | "a + b = 2 ^ 53" | "a + b = - (2 ^ 53)"
    using assms by linarith
  then show ?thesis
    by cases (simp_all add: doubleSum_exact_below, simp_all add: doubleSum_def edge)
qed

lemma integerDouble_small:
  assumes "\<bar>n\<bar> \<le> 2 ^ 53"
  shows "integerDouble n"
proof -
  have "(2::int) ^ 53 < 2 ^ 1024" by simp
  with assms have "\<bar>n\<bar> < 2 ^ 1024" by linarith
  with assms show ?thesis by (simp add: integerDouble_def doubleSum_exact)
qed

text \<open>So do they hold the multiples of \<open>2 ^ j\<close> up to \<open>2 ^ (53 + j)\<close>.\<close>

lemma doubleSum_exact_dvd:
  assumes "2 ^ j dvd a + b" and "\<bar>a + b\<bar> < 2 ^ (53 + j)"
  shows "doubleSum a b = a + b"
proof (cases "a + b = 0")
  case True
  then show ?thesis by (simp add: doubleSum_def nearestDouble_def truncDouble_def)
next
  case False
  define p where "p = a + b"
  define e where "e = doubleExponent \<bar>p\<bar> 1"
  have p0: "p \<noteq> 0" using False by (simp add: p_def)
  have "bitLength \<bar>p\<bar> \<le> 53 + j" using assms(2) by (intro bitLength_le) (simp add: p_def)
  then have ej: "e \<le> int j"
    by (simp add: e_def doubleExponent_def Let_def bitLength_1 split: prod.splits)
  show ?thesis
  proof (cases "e \<le> 0")
    case True
    have sc: "scaled \<bar>p\<bar> 1 e = (\<bar>p\<bar> * 2 ^ nat (- e), 1)"
      using True by (cases "e = 0") (simp_all add: scaled_def)
    have "nearestDouble p 1 = (sgn p * (\<bar>p\<bar> * 2 ^ nat (- e)), e)"
      using p0 sc by (simp add: nearestDouble_def Let_def e_def[symmetric])
    then show ?thesis using truncDouble_exact[OF True, of p] by (simp add: doubleSum_def p_def)
  next
    case False
    then have e0: "0 \<le> e" by simp
    define P :: int where "P = 2 ^ nat e"
    have sc: "scaled \<bar>p\<bar> 1 e = (\<bar>p\<bar>, P)" using e0 by (simp add: scaled_def P_def)
    have "nat e \<le> j" using ej by simp
    then have "(2::int) ^ nat e dvd 2 ^ j" by (rule le_imp_power_dvd)
    then have "P dvd p" using assms(1) unfolding P_def p_def by (rule dvd_trans)
    then have dv: "P dvd \<bar>p\<bar>" by simp
    then have rm: "\<bar>p\<bar> mod P = 0" by simp
    have Ppos: "0 < P" by (simp add: P_def)
    have nd: "nearestDouble p 1 = (sgn p * (\<bar>p\<bar> div P), e)"
      using p0 sc rm Ppos by (simp add: nearestDouble_def Let_def e_def[symmetric])
    have "truncDouble (sgn p * (\<bar>p\<bar> div P), e) = sgn p * (\<bar>p\<bar> div P) * P"
      using e0 by (simp add: truncDouble_def P_def)
    also have "\<dots> = sgn p * (\<bar>p\<bar> div P * P)" by (simp add: mult.assoc)
    also have "\<bar>p\<bar> div P * P = \<bar>p\<bar>" using dv by simp
    also have "sgn p * \<bar>p\<bar> = p" by (simp add: mult_sgn_abs)
    finally show ?thesis using nd by (simp add: doubleSum_def p_def)
  qed
qed

lemma integerDouble_dvd:
  assumes "2 ^ j dvd n" and "\<bar>n\<bar> < 2 ^ (53 + j)" and "j \<le> 971"
  shows "integerDouble n"
proof -
  have "(2::int) ^ (53 + j) \<le> 2 ^ 1024" using assms(3) by (intro power_increasing) simp_all
  with assms(2) have "\<bar>n\<bar> < 2 ^ 1024" by linarith
  moreover have "doubleSum n 0 = n + 0" using assms(1,2) by (intro doubleSum_exact_dvd) simp_all
  ultimately show ?thesis by (simp add: integerDouble_def)
qed

text \<open>
  The quotient by 500 of a score in \<open>[0, 500 * 2^31)\<close>, rounded to a double and cut to
  its integer part, is the integer quotient: the rounding error, at most a \<open>2 ^ 21\<close>-th
  of a unit, cannot carry a quotient across an integer, the nearest one below being at
  least a 500th away.
\<close>

lemma scaled_quotient:
  assumes "0 \<le> (n::int)" and "500 < P"
  shows "(n * P) div 500 div P = n div 500" and "((n * P) div 500 + 1) div P = n div 500"
proof -
  define m where "m = n div 500"
  define r where "r = n mod 500"
  define t where "t = (r * P) div 500"
  have r: "0 \<le> r" "r \<le> 499" by (simp_all add: r_def)
  have n: "n = 500 * m + r" by (simp add: m_def r_def)
  have "n * P = 500 * (m * P) + r * P" by (simp add: n algebra_simps)
  then have q: "(n * P) div 500 = m * P + t" by (simp add: t_def)
  have "0 \<le> r * P" using r assms(2) by simp
  then have t0: "0 \<le> t" by (simp add: t_def pos_imp_zdiv_nonneg_iff)
  have "500 * t \<le> r * P" unfolding t_def by (simp add: mult.commute[of 500])
  also have "\<dots> \<le> 499 * P" using r assms(2) by (intro mult_right_mono) simp_all
  finally have "500 * (t + 1) < 500 * P" using assms(2) by simp
  then have t1: "t + 1 < P" by simp
  show "(n * P) div 500 div P = n div 500"
    using t0 t1 by (simp add: q m_def[symmetric] div_pos_pos_trivial)
  show "((n * P) div 500 + 1) div P = n div 500"
    using t0 t1 by (simp add: q m_def[symmetric] add.assoc div_pos_pos_trivial)
qed

lemma doubleQuotient_floor:
  assumes "0 \<le> n" and "n < 500 * 2 ^ 31"
  shows "doubleQuotient n 500 = n div 500"
proof (cases "n = 0")
  case True
  then show ?thesis by (simp add: doubleQuotient_def nearestDouble_def truncDouble_def)
next
  case False
  with assms have pos: "0 < n" by simp
  define e where "e = doubleExponent n 500"
  define P :: int where "P = 2 ^ nat (- e)"
  have "n < 2 ^ 40" using assms(2) by simp
  then have "bitLength n \<le> 40" by (intro bitLength_le) simp
  then have e: "e \<le> - 21"
    by (simp add: e_def doubleExponent_def Let_def bitLength_500 split: prod.splits)
  then have "nat (- e) \<ge> 21" by simp
  then have "(2::int) ^ 21 \<le> 2 ^ nat (- e)" by (intro power_increasing) simp_all
  then have P: "500 < P" by (simp add: P_def)
  have sc: "scaled n 500 e = (n * P, 500)" using e by (simp add: scaled_def P_def)
  define qt where "qt = (n * P) div 500"
  define mant where "mant = (if 500 < 2 * ((n * P) mod 500)
      \<or> (2 * ((n * P) mod 500) = 500 \<and> odd qt) then qt + 1 else qt)"
  have nd: "nearestDouble n 500 = (mant, e)"
    using False pos sc
    by (simp add: nearestDouble_def Let_def e_def[symmetric] mant_def qt_def)
  have qt0: "0 \<le> qt" using pos P by (simp add: qt_def pos_imp_zdiv_nonneg_iff)
  then have m0: "0 \<le> mant" by (simp add: mant_def)
  have md: "mant div P = n div 500"
    using scaled_quotient[OF assms(1) P] by (simp add: mant_def qt_def)
  have "truncDouble (mant, e) = sgn mant * (mant div P)"
    using e m0 by (simp add: truncDouble_def P_def)
  also have "\<dots> = mant div P"
  proof (cases "mant = 0")
    case True
    then show ?thesis by simp
  next
    case False
    with m0 show ?thesis by simp
  qed
  finally show ?thesis by (simp add: doubleQuotient_def nd md)
qed

lemma toInt32_id: "- (2 ^ 31) \<le> v \<Longrightarrow> v < 2 ^ 31 \<Longrightarrow> toInt32 v = v"
  by (simp add: toInt32_def)

lemma level_floor:
  assumes "0 \<le> sc" and "sc < 500 * 2 ^ 31"
  shows "toInt32 (doubleQuotient sc 500) + 1 = sc div 500 + 1"
proof -
  have "0 \<le> sc div 500" using assms(1) by simp
  moreover have "sc div 500 < 2 ^ 31" using assms(2) by simp
  ultimately show ?thesis using assms by (simp add: doubleQuotient_floor toInt32_id)
qed

lemma filter_complete_count:
  "length g - length (filter (\<lambda>row. list_ex (\<lambda>cell. cell = 0) row) g)
     = length (filter rowComplete g)"
proof -
  have "length (filter rowComplete g) + length (filter (\<lambda>row. \<not> rowComplete row) g) = length g"
    by (rule sum_length_filter_compl)
  then show ?thesis by (simp add: rowComplete_def)
qed

text \<open>
  Neither the board nor the pieces of a game depend on score and level: a run from a
  state with another score goes through the same boards, and its score and level are
  those that the calls of \<^verbatim>\<open>clearAndMoveRows\<close> make, one after the other.
\<close>

lemma clearAndMoveRows_score:
  "snd (clearAndMoveRows g a l) = scoreAfter (a, l) (length (filter rowComplete g))"
  by (simp add: clearAndMoveRows_def Let_def filter_complete_count scoreAfter_def levelOf_def)

lemma clearAndMoveRows_board:
  "fst (clearAndMoveRows g a l) = fst (clearAndMoveRows g a' l')"
  by (simp add: clearAndMoveRows_def Let_def)

lemma movedBlock_ignores_score:
  "movedBlock (s\<lparr>score := a, level := l\<rparr>) e = movedBlock s e"
  by (cases e) (simp_all add: movedBlock_def applyMovement_def Let_def split: sum.splits)

lemma lockBlock_ignores_score:
  assumes "lockBlock i s b = Inr s'"
  shows "lockBlock i (s\<lparr>score := a, level := l\<rparr>) b = Inr (s'\<lparr>score := a, level := l\<rparr>)"
  using assms
  by (auto simp: lockBlock_def Let_def split: sum.splits list.splits if_splits)

lemma stateUpdater_score:
  assumes "stateUpdater i s e = Inr s'" and "movedBlock s e = Inr b"
  shows "stateUpdater i (s\<lparr>score := a, level := l\<rparr>) e =
     Inr (if lockBlockChecker b (grid s) then s'\<lparr>score := a, level := l\<rparr>
          else s'\<lparr>score := fst (scoreAfter (a, l) (length (filter rowComplete (grid s)))),
                  level := snd (scoreAfter (a, l) (length (filter rowComplete (grid s))))\<rparr>)"
proof -
  have mb: "movedBlock (s\<lparr>score := a, level := l\<rparr>) e = Inr b"
    using assms(2) by (simp add: movedBlock_ignores_score)
  note new = stateUpdater_unfold[OF mb, of i]
  note old = stateUpdater_unfold[OF assms(2), of i]
  show ?thesis
  proof (cases "lockBlockChecker b (grid s)")
    case True
    with old assms(1) have "lockBlock i s b = Inr s'" by simp
    from lockBlock_ignores_score[OF this] True new show ?thesis by simp
  next
    case False
    with old assms(1) have s': "s' = s\<lparr>grid := fst (clearAndMoveRows (grid s) (score s) (level s)),
              fallingBlock := b,
              score := fst (snd (clearAndMoveRows (grid s) (score s) (level s))),
              level := snd (snd (clearAndMoveRows (grid s) (score s) (level s)))\<rparr>"
      by simp
    show ?thesis using False new
      by (simp add: s' clearAndMoveRows_score clearAndMoveRows_board[of "grid s" a l "score s" "level s"])
  qed
qed

lemma runEvents_score:
  assumes "runEvents s es = Inr s'"
  shows "runEvents (s\<lparr>score := a, level := l\<rparr>) es =
     Inr (s'\<lparr>score := fst (foldl scoreAfter (a, l) (rowCounts s es)),
             level := snd (foldl scoreAfter (a, l) (rowCounts s es))\<rparr>)"
  using assms
proof (induction es arbitrary: s a l)
  case Nil
  then show ?case by simp
next
  case (Cons ie es)
  obtain i e where ie: "ie = (i, e)" by (cases ie)
  from Cons.prems obtain s1 where s1: "stateUpdater i s e = Inr s1" and run: "runEvents s1 es = Inr s'"
    by (auto simp: ie split: sum.splits)
  from s1 obtain b where b: "movedBlock s e = Inr b"
    by (cases rule: stateUpdater_cases) auto
  note step = stateUpdater_score[OF s1 b, where a = a and l = l]
  show ?case
  proof (cases "lockBlockChecker b (grid s)")
    case True
    with step Cons.IH[OF run, where a = a and l = l] s1 b show ?thesis by (simp add: ie)
  next
    case False
    define k where "k = length (filter rowComplete (grid s))"
    from Cons.IH[OF run, where a = "fst (scoreAfter (a, l) k)"
        and l = "snd (scoreAfter (a, l) k)"]
    show ?thesis using False step s1 b by (simp add: ie k_def)
  qed
qed

lemma runEvents_append:
  "runEvents s (xs @ ys) = (case runEvents s xs of Inl err \<Rightarrow> Inl err | Inr s' \<Rightarrow> runEvents s' ys)"
  by (induction xs arbitrary: s) (auto split: sum.splits)

text \<open>
  One round of \<open>cycleEvents\<close> from \<open>cycleState\<close> adds 200 to the score, whatever the score,
  as long as the sum is one that a double holds; so a game reaches every multiple of 200
  below \<open>2 ^ 56\<close>, and the first one above.
\<close>

lemma scoreAfter_no_rows:
  assumes "integerDouble a"
  shows "foldl scoreAfter (a, levelOf a) (replicate m 0) = (a, levelOf a)"
proof (induction m)
  case 0
  show ?case by simp
next
  case (Suc m)
  have "scoreAfter (a, levelOf a) 0 = (a, levelOf a)"
    using assms by (simp add: scoreAfter_def integerDouble_def)
  with Suc show ?case by simp
qed

lemma cycle_adds_200:
  assumes "integerDouble (a + 200)" and "doubleSum a 200 = a + 200"
  shows "runEvents (cycleState\<lparr>score := a, level := l\<rparr>) cycleEvents
           = Inr (cycleState\<lparr>score := a + 200, level := levelOf (a + 200)\<rparr>)"
proof -
  have run: "runEvents cycleState cycleEvents = Inr (cycleState\<lparr>score := 200, level := 1\<rparr>)"
    by code_simp
  have rc: "rowCounts cycleState cycleEvents = 2 # replicate 96 0"
    by code_simp
  have "scoreAfter (a, l) 2 = (a + 200, levelOf (a + 200))"
    using assms(2) by (simp add: scoreAfter_def)
  then have "foldl scoreAfter (a, l) (2 # replicate 96 0) = (a + 200, levelOf (a + 200))"
    using scoreAfter_no_rows[OF assms(1), of 96] by simp
  with runEvents_score[OF run, where a = a and l = l] show ?thesis by (simp add: rc)
qed

lemma concat_replicate_Suc:
  "concat (replicate (Suc n) xs) = concat (replicate n xs) @ xs"
  by (induction n) simp_all

lemma game_reaches_score:
  assumes "200 * int n < 2 ^ 56"
  shows "runEvents (initialState 0 0) (firstRowsEvents @ concat (replicate n cycleEvents))
           = Inr (cycleState\<lparr>score := 200 * int n, level := levelOf (200 * int n)\<rparr>)"
  using assms
proof (induction n)
  case 0
  have "runEvents (initialState 0 0) firstRowsEvents = Inr cycleState" by code_simp
  moreover have "levelOf 0 = 1" by code_simp
  moreover have "cycleState\<lparr>score := 0, level := 1\<rparr> = cycleState" by (simp add: cycleState_def)
  ultimately show ?case by simp
next
  case (Suc n)
  define a where "a = 200 * int n"
  have a: "200 * int (Suc n) = a + 200" by (simp add: a_def)
  have small: "\<bar>a + 200\<bar> < 2 ^ (53 + 3)" using Suc.prems by (simp add: a_def)
  have "(8::int) dvd 200" by simp
  then have "(8::int) dvd a + 200" by (simp add: a_def)
  then have dv: "(2::int) ^ 3 dvd a + 200" by simp
  have ex: "doubleSum a 200 = a + 200" using dv small by (rule doubleSum_exact_dvd)
  have idb: "integerDouble (a + 200)" using dv small by (rule integerDouble_dvd) simp
  have "200 * int n < 2 ^ 56" using Suc.prems by simp
  from Suc.IH[OF this]
  have before: "runEvents (initialState 0 0) (firstRowsEvents @ concat (replicate n cycleEvents))
          = Inr (cycleState\<lparr>score := a, level := levelOf a\<rparr>)"
    by (simp add: a_def)
  have "runEvents (initialState 0 0) (firstRowsEvents @ concat (replicate (Suc n) cycleEvents))
          = runEvents (initialState 0 0)
              ((firstRowsEvents @ concat (replicate n cycleEvents)) @ cycleEvents)"
    by (simp only: concat_replicate_Suc append_assoc)
  also have "\<dots> = (case runEvents (initialState 0 0)
                            (firstRowsEvents @ concat (replicate n cycleEvents)) of
                       Inl err \<Rightarrow> Inl err | Inr s' \<Rightarrow> runEvents s' cycleEvents)"
    by (rule runEvents_append)
  also have "\<dots> = runEvents (cycleState\<lparr>score := a, level := levelOf a\<rparr>) cycleEvents"
    by (simp only: before sum.case)
  also have "\<dots> = Inr (cycleState\<lparr>score := a + 200, level := levelOf (a + 200)\<rparr>)"
    using idb ex by (rule cycle_adds_200)
  finally show ?case by (simp only: a)
qed

lemma level_wraps_in_a_game:
  "runEvents (initialState 0 0) (firstRowsEvents @ concat (replicate 5368709119 cycleEvents))
     = Inr (cycleState\<lparr>score := 1073741823800, level := 2147483648\<rparr>)"
proof -
  have "200 * int 5368709119 < 2 ^ 56" by simp
  from game_reaches_score[OF this]
  have "runEvents (initialState 0 0) (firstRowsEvents @ concat (replicate 5368709119 cycleEvents))
     = Inr (cycleState\<lparr>score := 200 * int 5368709119, level := levelOf (200 * int 5368709119)\<rparr>)" .
  moreover have "200 * int 5368709119 = 1073741823800" by simp
  moreover have "levelOf 1073741823800 = 2147483648" by code_simp
  ultimately show ?thesis by (simp only:)
qed

lemma score_rounds_in_a_game:
  "runEvents (initialState 0 0) (firstRowsEvents @ concat (replicate 360287970189640 cycleEvents))
     = Inr (cycleState\<lparr>score := 72057594037928000, level := 1855425873\<rparr>)"
proof -
  have n: "(360287970189640::nat) = Suc 360287970189639" by simp
  have "200 * int 360287970189639 < 2 ^ 56" by simp
  from game_reaches_score[OF this]
  have "runEvents (initialState 0 0) (firstRowsEvents @ concat (replicate 360287970189639 cycleEvents))
     = Inr (cycleState\<lparr>score := 200 * int 360287970189639, level := levelOf (200 * int 360287970189639)\<rparr>)" .
  moreover have "200 * int 360287970189639 = 72057594037927800" by simp
  ultimately have before: "runEvents (initialState 0 0) (firstRowsEvents @ concat (replicate 360287970189639 cycleEvents))
     = Inr (cycleState\<lparr>score := 72057594037927800, level := levelOf 72057594037927800\<rparr>)"
    by (simp only:)
  have idb: "integerDouble (72057594037927800 + 200)" by code_simp
  have ex: "doubleSum 72057594037927800 200 = 72057594037927800 + 200" by code_simp
  have lv: "levelOf 72057594037928000 = 1855425873" by code_simp
  have sum: "(72057594037927800::int) + 200 = 72057594037928000" by simp
  have "runEvents (initialState 0 0)
          (firstRowsEvents @ concat (replicate 360287970189640 cycleEvents))
          = runEvents (initialState 0 0)
              ((firstRowsEvents @ concat (replicate 360287970189639 cycleEvents)) @ cycleEvents)"
    by (simp only: n concat_replicate_Suc append_assoc)
  also have "\<dots> = (case runEvents (initialState 0 0)
                            (firstRowsEvents @ concat (replicate 360287970189639 cycleEvents)) of
                       Inl err \<Rightarrow> Inl err | Inr s' \<Rightarrow> runEvents s' cycleEvents)"
    by (rule runEvents_append)
  also have "\<dots> = runEvents (cycleState\<lparr>score := 72057594037927800,
                                          level := levelOf 72057594037927800\<rparr>) cycleEvents"
    by (simp only: before sum.case)
  also have "\<dots> = Inr (cycleState\<lparr>score := 72057594037927800 + 200, level := levelOf (72057594037927800 + 200)\<rparr>)"
    using idb ex by (rule cycle_adds_200)
  finally show ?thesis by (simp only: sum lv)
qed

text \<open>
  Claim C6, as the code has it. With \<open>k\<close> the number of complete rows of the board, one
  call of \<^verbatim>\<open>clearAndMoveRows\<close> returns the rows that are not complete, in their order,
  below \<open>k\<close> new rows of ten zeros, so the height is unchanged (20 stays 20). The new
  score is the double nearest to \<open>score + 100 * k\<close>, which is \<open>score + 100 * k\<close> itself
  as long as that sum lies within \<open>2 ^ 53\<close> of zero. The new level is
  \<^verbatim>\<open>((score' / 500) | 0) + 1\<close>, which is \<open>score' div 500 + 1\<close> as long as the new score
  lies in \<open>[0, 500 * 2^31)\<close>, where \<^verbatim>\<open>| 0\<close> does not wrap. When \<open>k = 0\<close> the board is
  unchanged, and so is every score that a double holds, those within \<open>2 ^ 53\<close> of zero
  among them. The level is recomputed from the score, and the argument \<^verbatim>\<open>level\<close> is
  not read: with \<open>k = 0\<close> the level comes back unchanged if it was \<open>score div 500 + 1\<close>
  before, for a score in \<open>[0, 500 * 2^31)\<close>.
\<close>

theorem clearAndMoveRows_result:
  assumes "clearAndMoveRows g sc lv = (g', sc', lv')"
    and "k = length (filter rowComplete g)"
  shows "g' = replicate k (replicate 10 0) @ filter (\<lambda>row. \<not> rowComplete row) g
       \<and> length g' = length g
       \<and> sc' = doubleSum sc (100 * int k)
       \<and> (\<bar>sc + 100 * int k\<bar> \<le> 2 ^ 53 \<longrightarrow> sc' = sc + 100 * int k)
       \<and> lv' = toInt32 (doubleQuotient sc' 500) + 1
       \<and> (0 \<le> sc' \<and> sc' < 500 * 2 ^ 31 \<longrightarrow> lv' = sc' div 500 + 1)
       \<and> (k = 0 \<longrightarrow> g' = g
            \<and> (integerDouble sc \<longrightarrow> sc' = sc)
            \<and> (\<bar>sc\<bar> \<le> 2 ^ 53 \<longrightarrow> sc' = sc)
            \<and> (0 \<le> sc \<and> sc < 500 * 2 ^ 31 \<and> lv = sc div 500 + 1 \<longrightarrow> lv' = lv))"
proof -
  have g': "g' = replicate k (replicate 10 0) @ filter (\<lambda>row. \<not> rowComplete row) g"
    using assms by (simp add: clearAndMoveRows_def Let_def filter_complete_count)
      (simp add: rowComplete_def)
  have sc': "sc' = doubleSum sc (100 * int k)"
    using assms by (simp add: clearAndMoveRows_def Let_def filter_complete_count mult.commute)
  have lv': "lv' = toInt32 (doubleQuotient sc' 500) + 1"
    using assms by (auto simp: clearAndMoveRows_def Let_def)
  have len: "length g' = length g"
    using sum_length_filter_compl[of rowComplete g] by (simp add: g' assms(2))
  have exact: "sc' = sc + 100 * int k" if "\<bar>sc + 100 * int k\<bar> \<le> 2 ^ 53"
    using that by (simp add: sc' doubleSum_exact)
  have floor: "lv' = sc' div 500 + 1" if "0 \<le> sc'" and "sc' < 500 * 2 ^ 31"
    using that by (simp add: lv' level_floor)
  have k0: "g' = g" if "k = 0"
  proof -
    from that have "filter rowComplete g = []" using assms(2) by simp
    then have "\<forall>row\<in>set g. \<not> rowComplete row" by (simp add: filter_empty_conv)
    then have "filter (\<lambda>row. \<not> rowComplete row) g = g" by (simp add: filter_id_conv)
    then show ?thesis using that by (simp add: g')
  qed
  have s0: "sc' = sc" if "k = 0" and "integerDouble sc"
    using that by (simp add: sc' integerDouble_def)
  have s1: "sc' = sc" if "k = 0" and "\<bar>sc\<bar> \<le> 2 ^ 53"
    using that by (simp add: s0 integerDouble_small)
  have l0: "lv' = lv" if "k = 0" and "0 \<le> sc" and "sc < 500 * 2 ^ 31" and "lv = sc div 500 + 1"
  proof -
    have "\<bar>sc\<bar> \<le> 2 ^ 53" using that(2,3) by simp
    with that(1) have "sc' = sc" by (rule s1)
    with that floor show ?thesis by simp
  qed
  show ?thesis using g' sc' lv' len exact floor k0 s0 s1 l0 by blast
qed

text \<open>
  The theorem at the board of \<open>clearExampleLocked\<close>, whose bottom row is complete, with
  score 400: one row goes, the score becomes 500 and the level 2.
\<close>

theorem clearAndMoveRows_result_witness:
  "clearAndMoveRows (grid clearExampleLocked) 400 1
     = (replicate 3 emptyRow @ replicate 17 pileRow, 500, 2)
   \<and> 1 = length (filter rowComplete (grid clearExampleLocked))
   \<and> replicate 3 emptyRow @ replicate 17 pileRow
       = replicate 1 (replicate 10 0)
         @ filter (\<lambda>row. \<not> rowComplete row) (grid clearExampleLocked)
   \<and> length (replicate 3 emptyRow @ replicate 17 pileRow) = length (grid clearExampleLocked)
   \<and> \<bar>400 + 100 * int 1\<bar> \<le> (2::int) ^ 53
   \<and> (500::int) = 400 + 100 * int 1
   \<and> (0::int) \<le> 500 \<and> (500::int) < 500 * 2 ^ 31
   \<and> (2::int) = 500 div 500 + 1"
proof -
  have a: "clearAndMoveRows (grid clearExampleLocked) 400 1
     = (replicate 3 emptyRow @ replicate 17 pileRow, 500, 2)"
    by code_simp
  have b: "1 = length (filter rowComplete (grid clearExampleLocked))"
    by code_simp
  have c: "\<bar>400 + 100 * int 1\<bar> \<le> (2::int) ^ 53"
    by simp
  have d: "(0::int) \<le> 500" "(500::int) < 500 * 2 ^ 31"
    by simp_all
  from clearAndMoveRows_result[OF a b] a b c d show ?thesis by blast
qed

text \<open>
  The counterexample to claim C6 as the specification states it, in two games from the
  initial state, both at \<open>cycleState\<close>, whose board has 20 rows, two of them complete;
  the event \<open>Move (-1) 0\<close> does not lock there and calls \<^verbatim>\<open>clearAndMoveRows\<close> on board,
  score and level of the state. After 5368709119 rounds the score is 1073741823800 and
  the level 2147483648; the call makes the score \<open>500 * 2^31\<close>, whose quotient by 500
  wraps in \<^verbatim>\<open>| 0\<close>, and the level comes back negative. After 360287970189640 rounds the
  score is 72057594037928000, above \<open>2 ^ 56\<close>, where doubles are 16 apart; the sum of the
  score and 200 lies halfway between two of them, and the score grows by 192.
\<close>

theorem clearAndMoveRows_wraps_and_rounds:
  "length (grid cycleState) = 20
   \<and> length (filter rowComplete (grid cycleState)) = 2
   \<and> runEvents (initialState 0 0) (firstRowsEvents @ concat (replicate 5368709119 cycleEvents))
       = Inr (cycleState\<lparr>score := 1073741823800, level := 2147483648\<rparr>)
   \<and> clearAndMoveRows (grid cycleState) 1073741823800 2147483648
       = (emptyGrid, 1073741824000, - 2147483647)
   \<and> stateUpdater 0 (cycleState\<lparr>score := 1073741823800, level := 2147483648\<rparr>) (Move (- 1) 0)
       = Inr (cycleCleared\<lparr>score := 1073741824000, level := - 2147483647\<rparr>)
   \<and> (1073741824000::int) div 500 + 1 = 2147483649
   \<and> runEvents (initialState 0 0)
         (firstRowsEvents @ concat (replicate 360287970189640 cycleEvents))
       = Inr (cycleState\<lparr>score := 72057594037928000, level := 1855425873\<rparr>)
   \<and> clearAndMoveRows (grid cycleState) 72057594037928000 1855425873
       = (emptyGrid, 72057594037928192, 1855425873)
   \<and> stateUpdater 0 (cycleState\<lparr>score := 72057594037928000, level := 1855425873\<rparr>) (Move (- 1) 0)
       = Inr (cycleCleared\<lparr>score := 72057594037928192, level := 1855425873\<rparr>)
   \<and> (72057594037928000::int) + 100 * 2 = 72057594037928200"
proof -
  have a: "length (grid cycleState) = 20" by code_simp
  have b: "length (filter rowComplete (grid cycleState)) = 2" by code_simp
  have c: "clearAndMoveRows (grid cycleState) 1073741823800 2147483648
       = (emptyGrid, 1073741824000, - 2147483647)" by code_simp
  have d: "stateUpdater 0 (cycleState\<lparr>score := 1073741823800, level := 2147483648\<rparr>) (Move (- 1) 0)
       = Inr (cycleCleared\<lparr>score := 1073741824000, level := - 2147483647\<rparr>)" by code_simp
  have e: "(1073741824000::int) div 500 + 1 = 2147483649" by simp
  have f: "clearAndMoveRows (grid cycleState) 72057594037928000 1855425873
       = (emptyGrid, 72057594037928192, 1855425873)" by code_simp
  have g: "stateUpdater 0 (cycleState\<lparr>score := 72057594037928000, level := 1855425873\<rparr>) (Move (- 1) 0)
       = Inr (cycleCleared\<lparr>score := 72057594037928192, level := 1855425873\<rparr>)" by code_simp
  have h: "(72057594037928000::int) + 100 * 2 = 72057594037928200" by simp
  from level_wraps_in_a_game score_rounds_in_a_game a b c d e f g h show ?thesis by blast
qed

text \<open>
  Claim C5, as the code has it. An event that locks the piece never clears a row and
  never changes score or level: when the game goes on, the board it returns is the board
  with the piece written in, rows completed by the lock included; when the lock ends the
  game, the state comes back with the board as it was before the lock, the piece not
  written in. Either way every row that was complete stays complete (for a colour other
  than 0). An event that does not lock applies \<^verbatim>\<open>clearAndMoveRows\<close> to the board it
  received: that is where completed rows go and the score grows. So a completed row
  stays, through every following event that locks, until the first event that does not.
\<close>

theorem rows_are_cleared_by_events_that_do_not_lock:
  assumes "movedBlock s e = Inr b" and "stateUpdater i s e = Inr s'"
  shows "if lockBlockChecker b (grid s)
         then score s' = score s \<and> level s' = level s
              \<and> (\<exists>row0 rows. mergeBlockWithBlock (grid s) b = Inr (row0 # rows)
                    \<and> (if list_ex (\<lambda>cell. cell \<noteq> 0) row0 then s' = s\<lparr>gameEnd := True\<rparr>
                        else lockInWrite (row0 # rows) b = Inr (grid s')))
              \<and> (color b \<noteq> 0 \<longrightarrow> keepsCompleteRows (grid s) (grid s'))
         else (grid s', score s', level s') = clearAndMoveRows (grid s) (score s) (level s)
              \<and> fallingBlock s' = b"
proof (cases "lockBlockChecker b (grid s)")
  case True
  with assms have lb: "lockBlock i s b = Inr s'" by (simp add: stateUpdater_def)
  from lb show ?thesis
  proof (cases rule: lockBlock_cases)
    case (ended row0 rows)
    then show ?thesis using True by (auto simp: keepsCompleteRows_iff)
  next
    case (locked row0 rows lockedGrid)
    have "color b \<noteq> 0 \<Longrightarrow> keepsCompleteRows (grid s) lockedGrid"
      using mergeBlockWithBlock_keeps[OF locked(1)] lockInWrite_keeps[OF locked(3)]
      by (blast intro: keepsCompleteRows_trans)
    then show ?thesis using True locked by auto
  qed
next
  case False
  then show ?thesis using stateUpdater_unfold[OF assms(1), of i] assms(2)
    by (auto simp: prod_eq_iff)
qed

text \<open>
  The theorem at \<open>clearExampleBefore\<close>: the I piece locks and completes the bottom row;
  score and level stay, and the rows of the board before the lock that were complete
  (none) are kept.
\<close>

theorem rows_are_cleared_by_events_that_do_not_lock_witness:
  "movedBlock clearExampleBefore (Move 0 1) = Inr clearExampleBlock
   \<and> stateUpdater 0 clearExampleBefore (Move 0 1) = Inr clearExampleLocked
   \<and> lockBlockChecker clearExampleBlock (grid clearExampleBefore)
   \<and> score clearExampleLocked = score clearExampleBefore
   \<and> level clearExampleLocked = level clearExampleBefore
   \<and> keepsCompleteRows (grid clearExampleBefore) (grid clearExampleLocked)"
proof -
  have c: "color clearExampleBlock \<noteq> 0" by code_simp
  from rows_are_cleared_by_events_that_do_not_lock[OF clearExample_moved clearExample_step]
    clearExample_locks c
  have "score clearExampleLocked = score clearExampleBefore
      \<and> level clearExampleLocked = level clearExampleBefore
      \<and> keepsCompleteRows (grid clearExampleBefore) (grid clearExampleLocked)"
    by simp
  with clearExample_moved clearExample_step clearExample_locks show ?thesis by blast
qed

text \<open>
  The counterexample to claim C5 as the specification states it, in a real game
  (\<open>clearEvents\<close> from an initial state). The I piece locks and completes row 19. The
  following event, a gravity tick, locks the new O piece on the pile: the state it
  produces still has the complete row 19 and score 0.
\<close>

theorem completed_row_survives_following_event:
  "runEvents (initialState 1 0) clearEvents = Inr clearExampleBefore
   \<and> stateUpdater 0 clearExampleBefore (Move 0 1) = Inr clearExampleLocked
   \<and> rowComplete (grid clearExampleLocked ! 19)
   \<and> score clearExampleLocked = 0
   \<and> stateUpdater 0 clearExampleLocked (Move 0 1) = Inr clearExampleNext
   \<and> rowComplete (grid clearExampleNext ! 19)
   \<and> score clearExampleNext = 0"
  by code_simp

section \<open>Rotation\<close>

lemma column_by_index: "map (\<lambda>row. row ! c) sh = map (\<lambda>j. sh ! j ! c) [0..<length sh]"
  by (rule nth_equalityI) simp_all

lemma rotation_is_transpose_rev:
  assumes "sh \<noteq> []" and "list_all (\<lambda>row. length row = C) sh"
  shows "map (\<lambda>columnIndex. rev (map (\<lambda>row. row ! columnIndex) sh)) [0..<C]
           = map rev (transpose sh)"
proof -
  have rect: "\<And>i. i < length sh \<Longrightarrow> length (sh ! i) = C"
    using assms(2) by (simp add: list_all_length)
  have "transpose sh = map (\<lambda>i. map (\<lambda>j. sh ! j ! i) [0..<length sh]) [0..<C]"
    by (rule transpose_rectangle) (use assms(1) rect in simp_all)
  then show ?thesis by (simp add: column_by_index[symmetric] comp_def)
qed

lemma tetrominoRotation_rect:
  assumes "sh \<noteq> []" and "list_all (\<lambda>row. length row = C) sh"
  shows "tetrominoRotation sh = Inr (map rev (transpose sh))"
proof -
  obtain r0 rest where sh: "sh = r0 # rest" using assms(1) by (cases sh) auto
  have r0: "length r0 = C" using assms(2) sh by simp
  have "\<not> list_ex (\<lambda>row. length row < length r0) sh"
    using assms(2) r0 by (auto simp: list_ex_iff list_all_iff)
  then have "tetrominoRotation sh =
      Inr (map (\<lambda>columnIndex. rev (map (\<lambda>row. row ! columnIndex) sh)) [0..<C])"
    using sh r0 by (simp add: tetrominoRotation_def)
  then show ?thesis using rotation_is_transpose_rev[OF assms] by simp
qed

lemma rotated_dims:
  assumes "sh \<noteq> []" and "list_all (\<lambda>row. length row = C) sh"
  shows "length (map rev (transpose sh)) = C"
    and "list_all (\<lambda>row. length row = length sh) (map rev (transpose sh))"
    and "c < C \<Longrightarrow> r < length sh
         \<Longrightarrow> map rev (transpose sh) ! c ! r = sh ! (length sh - 1 - r) ! c"
proof -
  have eq: "map rev (transpose sh) =
      map (\<lambda>columnIndex. rev (map (\<lambda>row. row ! columnIndex) sh)) [0..<C]"
    using rotation_is_transpose_rev[OF assms] by simp
  show "length (map rev (transpose sh)) = C" by (simp add: eq)
  show "list_all (\<lambda>row. length row = length sh) (map rev (transpose sh))"
    by (simp add: eq list_all_iff)
  show "map rev (transpose sh) ! c ! r = sh ! (length sh - 1 - r) ! c"
    if "c < C" "r < length sh"
    using that by (simp add: eq rev_nth)
qed

text \<open>
  Claim C7, as the code has it. Let the falling piece have a shape \<open>sh\<close> of \<open>R\<close> rows and
  \<open>C\<close> columns. Then \<^verbatim>\<open>tetrominoRotation\<close> returns the transpose of \<open>sh\<close> with every row
  reversed, a matrix of \<open>C\<close> rows and \<open>R\<close> columns whose entry \<open>(c, r)\<close> is the entry
  \<open>(R - 1 - r, c)\<close> of \<open>sh\<close>: the quarter turn clockwise. On a \<open>Rotate\<close> event the piece
  \<open>b\<close> the reducer goes on with has that shape exactly when the rotated piece does not
  collide with the board at offset \<open>(0, 0)\<close>, and the shape \<open>sh\<close> otherwise; colour and row
  are unchanged. What the returned state holds of \<open>b\<close> depends on the lock test of the
  same event.
  \<^item> If \<open>b\<close> does not lock, it is the falling piece of the returned state.
  \<^item> If \<open>b\<close> locks and the top row of the merged board is empty, \<open>b\<close> is written into
    the board and the falling piece of the returned state is the piece just drawn.
  \<^item> If \<open>b\<close> locks and the top row of the merged board is not empty, the state comes back
    with \<open>gameEnd\<close> set and nothing else changed: its falling piece has the shape \<open>sh\<close>,
    also when the rotation did not collide.
\<close>

theorem rotate_event_shape:
  assumes "length sh = R" and "0 < R" and "0 < C" and "list_all (\<lambda>row. length row = C) sh"
    and "shape (fallingBlock s) = sh"
  shows "tetrominoRotation sh = Inr (map rev (transpose sh))
       \<and> length (map rev (transpose sh)) = C
       \<and> list_all (\<lambda>row. length row = R) (map rev (transpose sh))
       \<and> (\<forall>c<C. \<forall>r<R. map rev (transpose sh) ! c ! r = sh ! (R - 1 - r) ! c)
       \<and> (\<exists>b. movedBlock s Rotate = Inr b
             \<and> shape b =
                 (if collisionChecker (grid s)
                       ((fallingBlock s)\<lparr>shape := map rev (transpose sh)\<rparr>) 0 0
                  then sh else map rev (transpose sh))
             \<and> color b = color (fallingBlock s) \<and> y b = y (fallingBlock s)
             \<and> stateUpdater i s Rotate =
                 (if lockBlockChecker b (grid s) then lockBlock i s b
                  else Inr (s\<lparr>grid := fst (clearAndMoveRows (grid s) (score s) (level s)),
                          fallingBlock := b,
                          score := fst (snd (clearAndMoveRows (grid s) (score s) (level s))),
                          level := snd (snd (clearAndMoveRows (grid s) (score s) (level s)))\<rparr>))
             \<and> (\<forall>s'. stateUpdater i s Rotate = Inr s' \<longrightarrow>
                   (if lockBlockChecker b (grid s)
                    then (\<exists>row0 rows. mergeBlockWithBlock (grid s) b = Inr (row0 # rows)
                           \<and> (if list_ex (\<lambda>cell. cell \<noteq> 0) row0
                               then s' = s\<lparr>gameEnd := True\<rparr>
                                    \<and> fallingBlock s' = fallingBlock s
                                    \<and> shape (fallingBlock s') = sh
                               else lockInWrite (row0 # rows) b = Inr (grid s')
                                    \<and> fallingBlock s' = getRandomTetromino i))
                    else fallingBlock s' = b)))"
proof -
  let ?rot = "map rev (transpose sh)"
  let ?fb = "fallingBlock s"
  let ?col = "collisionChecker (grid s) (?fb\<lparr>shape := ?rot\<rparr>) 0 0"
  have ne: "sh \<noteq> []" using assms(1,2) by auto
  note rot = tetrominoRotation_rect[OF ne assms(4)]
  note dims = rotated_dims[OF ne assms(4)]
  have rne: "?rot \<noteq> []" using dims(1) assms(3) by auto
  have am: "applyMovement s Rotate = Inr (?fb\<lparr>shape := if ?col then sh else ?rot\<rparr>)"
    using assms(5) rot by (auto simp: applyMovement_def Let_def)
  have "shape (?fb\<lparr>shape := if ?col then sh else ?rot\<rparr>) \<noteq> []" using ne rne by simp
  from clampBlock_defined[OF this] obtain b
    where b: "clampBlock (?fb\<lparr>shape := if ?col then sh else ?rot\<rparr>) = Inr b" by blast
  have mb: "movedBlock s Rotate = Inr b" by (simp add: movedBlock_def am b)
  note su = stateUpdater_unfold[OF mb, of i]
  have ret: "if lockBlockChecker b (grid s)
             then (\<exists>row0 rows. mergeBlockWithBlock (grid s) b = Inr (row0 # rows)
                    \<and> (if list_ex (\<lambda>cell. cell \<noteq> 0) row0
                        then s' = s\<lparr>gameEnd := True\<rparr>
                             \<and> fallingBlock s' = fallingBlock s
                             \<and> shape (fallingBlock s') = sh
                        else lockInWrite (row0 # rows) b = Inr (grid s')
                             \<and> fallingBlock s' = getRandomTetromino i))
             else fallingBlock s' = b"
    if res: "stateUpdater i s Rotate = Inr s'" for s'
  proof (cases "lockBlockChecker b (grid s)")
    case True
    with res su have "lockBlock i s b = Inr s'" by simp
    then show ?thesis
    proof (cases rule: lockBlock_cases)
      case (ended row0 rows)
      then show ?thesis using True assms(5) by simp
    next
      case (locked row0 rows lockedGrid)
      then show ?thesis using True by simp
    qed
  next
    case False
    with res su show ?thesis by auto
  qed
  have "shape b = (if ?col then sh else ?rot) \<and> color b = color ?fb \<and> y b = y ?fb"
    using clampBlock_shape[OF b] by simp
  with su ret have last: "\<exists>b. movedBlock s Rotate = Inr b
             \<and> shape b = (if ?col then sh else ?rot)
             \<and> color b = color ?fb \<and> y b = y ?fb
             \<and> stateUpdater i s Rotate =
                 (if lockBlockChecker b (grid s) then lockBlock i s b
                  else Inr (s\<lparr>grid := fst (clearAndMoveRows (grid s) (score s) (level s)),
                          fallingBlock := b,
                          score := fst (snd (clearAndMoveRows (grid s) (score s) (level s))),
                          level := snd (snd (clearAndMoveRows (grid s) (score s) (level s)))\<rparr>))
             \<and> (\<forall>s'. stateUpdater i s Rotate = Inr s' \<longrightarrow>
                   (if lockBlockChecker b (grid s)
                    then (\<exists>row0 rows. mergeBlockWithBlock (grid s) b = Inr (row0 # rows)
                           \<and> (if list_ex (\<lambda>cell. cell \<noteq> 0) row0
                               then s' = s\<lparr>gameEnd := True\<rparr>
                                    \<and> fallingBlock s' = fallingBlock s
                                    \<and> shape (fallingBlock s') = sh
                               else lockInWrite (row0 # rows) b = Inr (grid s')
                                    \<and> fallingBlock s' = getRandomTetromino i))
                    else fallingBlock s' = b))"
    using mb by blast
  show ?thesis using rot dims assms(1) last by (intro conjI) auto
qed

text \<open>
  The theorem at \<open>lockExampleResult\<close>, where a T piece (2 rows, 3 columns) has just
  appeared on a board whose upper rows are empty: the rotation is adopted, the piece
  does not lock, and the rotated piece is the falling piece of the returned state.
\<close>

theorem rotate_event_shape_witness:
  "length [[0, 1, 0], [1, 1, 1::int]] = 2
   \<and> list_all (\<lambda>row. length row = 3) [[0, 1, 0], [1, 1, 1::int]]
   \<and> shape (fallingBlock lockExampleResult) = [[0, 1, 0], [1, 1, 1]]
   \<and> tetrominoRotation [[0, 1, 0], [1, 1, 1]] = Inr [[1, 0], [1, 1], [1, 0]]
   \<and> movedBlock lockExampleResult Rotate
       = Inr \<lparr>shape = [[1, 0], [1, 1], [1, 0]], color = 3, x = 4, y = 0\<rparr>
   \<and> \<not> lockBlockChecker \<lparr>shape = [[1, 0], [1, 1], [1, 0]], color = 3, x = 4, y = 0\<rparr>
         (grid lockExampleResult)
   \<and> stateUpdater 0 lockExampleResult Rotate
       = Inr (lockExampleResult
                \<lparr>fallingBlock := \<lparr>shape = [[1, 0], [1, 1], [1, 0]], color = 3, x = 4, y = 0\<rparr>\<rparr>)
   \<and> fallingBlock (lockExampleResult
                \<lparr>fallingBlock := \<lparr>shape = [[1, 0], [1, 1], [1, 0]], color = 3, x = 4, y = 0\<rparr>\<rparr>)
       = \<lparr>shape = [[1, 0], [1, 1], [1, 0]], color = 3, x = 4, y = 0\<rparr>"
proof -
  let ?b = "\<lparr>shape = [[1, 0], [1, 1], [1, 0]], color = 3, x = 4, y = 0\<rparr>"
  let ?s' = "lockExampleResult\<lparr>fallingBlock := ?b\<rparr>"
  have h1: "length [[0, 1, 0], [1, 1, 1::int]] = 2" by simp
  have h4: "list_all (\<lambda>row. length row = 3) [[0, 1, 0], [1, 1, 1::int]]" by simp
  have h5: "shape (fallingBlock lockExampleResult) = [[0, 1, 0], [1, 1, 1]]" by code_simp
  have tr: "map rev (transpose [[0, 1, 0], [1, 1, 1::int]]) = [[1, 0], [1, 1], [1, 0]]"
    by code_simp
  have mb: "movedBlock lockExampleResult Rotate = Inr ?b"
    by code_simp
  have nl: "\<not> lockBlockChecker ?b (grid lockExampleResult)"
    by code_simp
  have su: "stateUpdater 0 lockExampleResult Rotate = Inr ?s'"
    by code_simp
  note inst = rotate_event_shape[OF h1 _ _ h4 h5, of 0]
  from inst have rot: "tetrominoRotation [[0, 1, 0], [1, 1, 1]]
          = Inr (map rev (transpose [[0, 1, 0], [1, 1, 1::int]]))"
    by simp
  from inst obtain b where b: "movedBlock lockExampleResult Rotate = Inr b"
    and ret: "\<forall>s'. stateUpdater 0 lockExampleResult Rotate = Inr s' \<longrightarrow>
                (if lockBlockChecker b (grid lockExampleResult)
                 then (\<exists>row0 rows.
                         mergeBlockWithBlock (grid lockExampleResult) b = Inr (row0 # rows)
                         \<and> (if list_ex (\<lambda>cell. cell \<noteq> 0) row0
                             then s' = lockExampleResult\<lparr>gameEnd := True\<rparr>
                                  \<and> fallingBlock s' = fallingBlock lockExampleResult
                                  \<and> shape (fallingBlock s') = [[0, 1, 0], [1, 1, 1]]
                             else lockInWrite (row0 # rows) b = Inr (grid s')
                                  \<and> fallingBlock s' = getRandomTetromino 0))
                 else fallingBlock s' = b)"
    by auto
  from b mb have "b = ?b" by simp
  with ret su nl have fb: "fallingBlock ?s' = ?b" by simp
  from rot tr h1 h4 h5 mb nl su fb show ?thesis by simp
qed

text \<open>
  The counterexample to claim C7 as the specification states it, in two games. In the
  first, 18 gravity ticks bring a T piece to the floor of an empty board. \<open>Rotate\<close> turns
  it, the turned piece does not collide, and it locks in the same event: it is written
  into the board, and the falling piece of the returned state is the I piece just drawn,
  whose shape is neither the turned nor the unturned T. In the second, the events
  \<open>rotateEndEvents\<close> build a pile beside which a T piece appears. \<open>Rotate\<close> turns it, the
  turned piece does not collide, it locks, and the lock ends the game: the falling piece
  of the returned state still has the unturned shape.
\<close>

theorem rotated_piece_is_not_the_falling_piece:
  "runEvents (initialState 2 0) (replicate 18 (0, Move 0 1)) = Inr rotateLockExample
   \<and> shape (fallingBlock rotateLockExample) = [[0, 1, 0], [1, 1, 1]]
   \<and> tetrominoRotation (shape (fallingBlock rotateLockExample))
       = Inr [[1, 0], [1, 1], [1, 0]]
   \<and> \<not> collisionChecker (grid rotateLockExample)
         ((fallingBlock rotateLockExample)\<lparr>shape := [[1, 0], [1, 1], [1, 0]]\<rparr>) 0 0
   \<and> stateUpdater 1 rotateLockExample Rotate = Inr rotateLockResult
   \<and> shape (fallingBlock rotateLockResult) = [[1, 1, 1, 1]]
   \<and> shape (fallingBlock rotateLockResult) \<noteq> [[1, 0], [1, 1], [1, 0]]
   \<and> runEvents (initialState 0 0) rotateEndEvents = Inr rotateEndExample
   \<and> shape (fallingBlock rotateEndExample) = [[0, 1, 0], [1, 1, 1]]
   \<and> tetrominoRotation (shape (fallingBlock rotateEndExample))
       = Inr [[1, 0], [1, 1], [1, 0]]
   \<and> \<not> collisionChecker (grid rotateEndExample)
         ((fallingBlock rotateEndExample)\<lparr>shape := [[1, 0], [1, 1], [1, 0]]\<rparr>) 0 0
   \<and> stateUpdater 1 rotateEndExample Rotate = Inr (rotateEndExample\<lparr>gameEnd := True\<rparr>)
   \<and> shape (fallingBlock (rotateEndExample\<lparr>gameEnd := True\<rparr>)) = [[0, 1, 0], [1, 1, 1]]
   \<and> shape (fallingBlock (rotateEndExample\<lparr>gameEnd := True\<rparr>)) \<noteq> [[1, 0], [1, 1], [1, 0]]"
  by code_simp

section \<open>The clamp against the walls\<close>

text \<open>
  Claim C8, as the code has it. After one \<open>Move\<close> event on a state whose falling piece is
  at most ten cells wide, whatever its anchor column was, the falling piece of the state
  returned has its anchor column between 0 and \<open>GRID_WIDTH\<close> minus its width, unless the
  state came back as it was with \<open>gameEnd\<close> set, which is what a lock that ends the game
  returns: then the falling piece is the one of the state before, unclamped.
\<close>

theorem move_leaves_anchor_in_range:
  assumes "shapeWidth (fallingBlock s) \<le> GRID_WIDTH" and "i < 7"
    and "stateUpdater i s (Move dx dy) = Inr s'"
    and "s' \<noteq> s\<lparr>gameEnd := True\<rparr>"
  shows "0 \<le> x (fallingBlock s')
       \<and> x (fallingBlock s') \<le> GRID_WIDTH - shapeWidth (fallingBlock s')"
  using assms(3)
proof (cases rule: stateUpdater_cases)
  case (lock b)
  from lock(3) show ?thesis
  proof (cases rule: lockBlock_cases)
    case ended
    with assms(4) show ?thesis by simp
  next
    case locked
    then show ?thesis using getRandomTetromino_range[OF assms(2)] by simp
  qed
next
  case (move b)
  then show ?thesis using movedBlock_Move_range[OF move(1) assms(1)] by simp
qed

text \<open>
  The theorem at \<open>outOfRangeExample\<close>: the anchor column 12 of the O piece, moved one
  further to the right, comes back as 8.
\<close>

theorem move_leaves_anchor_in_range_witness:
  "shapeWidth (fallingBlock outOfRangeExample) \<le> GRID_WIDTH
   \<and> x (fallingBlock outOfRangeExample) = 12
   \<and> stateUpdater 3 outOfRangeExample (Move 1 0)
       = Inr (outOfRangeExample
               \<lparr>fallingBlock := \<lparr>shape = [[1, 1], [1, 1]], color = 1, x = 8, y = 0\<rparr>\<rparr>)
   \<and> 0 \<le> x (fallingBlock (outOfRangeExample
               \<lparr>fallingBlock := \<lparr>shape = [[1, 1], [1, 1]], color = 1, x = 8, y = 0\<rparr>\<rparr>))
   \<and> x (fallingBlock (outOfRangeExample
               \<lparr>fallingBlock := \<lparr>shape = [[1, 1], [1, 1]], color = 1, x = 8, y = 0\<rparr>\<rparr>))
       \<le> GRID_WIDTH - shapeWidth (fallingBlock (outOfRangeExample
               \<lparr>fallingBlock := \<lparr>shape = [[1, 1], [1, 1]], color = 1, x = 8, y = 0\<rparr>\<rparr>))"
proof -
  have h1: "shapeWidth (fallingBlock outOfRangeExample) \<le> GRID_WIDTH" by code_simp
  have h2: "(3::nat) < 7" by simp
  have h3: "stateUpdater 3 outOfRangeExample (Move 1 0)
       = Inr (outOfRangeExample
               \<lparr>fallingBlock := \<lparr>shape = [[1, 1], [1, 1]], color = 1, x = 8, y = 0\<rparr>\<rparr>)"
    by code_simp
  have h4: "outOfRangeExample
               \<lparr>fallingBlock := \<lparr>shape = [[1, 1], [1, 1]], color = 1, x = 8, y = 0\<rparr>\<rparr>
            \<noteq> outOfRangeExample\<lparr>gameEnd := True\<rparr>"
    by code_simp
  have h5: "x (fallingBlock outOfRangeExample) = 12" by code_simp
  from move_leaves_anchor_in_range[OF h1 h2 h3 h4] h1 h3 h5 show ?thesis by blast
qed

text \<open>
  The counterexample to claim C8 as the specification states it. In
  \<open>outOfRangePileExample\<close> the anchor column is 12 and the piece is 2 wide, so the range
  is 0 to 8. The \<open>Move\<close> event clamps the working copy to column 8, where it rests on the
  pile and locks; the merged board has cells in its top row, and the state comes back
  with \<open>gameEnd\<close> set and its falling piece still at column 12.
\<close>

theorem game_over_returns_unclamped_piece:
  "x (fallingBlock outOfRangePileExample) = 12
   \<and> shapeWidth (fallingBlock outOfRangePileExample) = 2
   \<and> stateUpdater 3 outOfRangePileExample (Move 1 0)
       = Inr (outOfRangePileExample\<lparr>gameEnd := True\<rparr>)
   \<and> x (fallingBlock (outOfRangePileExample\<lparr>gameEnd := True\<rparr>)) = 12
   \<and> shapeWidth (fallingBlock (outOfRangePileExample\<lparr>gameEnd := True\<rparr>)) = 2"
  by code_simp

section \<open>The reducer on the events of a game\<close>

text \<open>
  On the events the program generates the reducer never raises. The proof keeps an
  invariant: the board has 20 rows of 10 cells, and the falling piece has one of the
  shapes of \<open>allShapes\<close>, lies between the walls, is not above row \<open>-1\<close> and has its lowest
  row above the bottom row. Under it, a merge reads rows 0 to 19 only; a piece that locks
  at row \<open>-1\<close> always leaves a cell in the top row of the merged board, so the game ends
  before the lock-in write; and every other lock-in write stays inside the board.
\<close>

lemma someI_iff: "someI p vs i \<longleftrightarrow> (\<exists>j<length vs. p (vs ! j) (i + j))"
proof (induction vs arbitrary: i)
  case Nil
  then show ?case by simp
next
  case (Cons v vs)
  have "(\<exists>j<Suc (length vs). p ((v # vs) ! j) (i + j))
        \<longleftrightarrow> p v i \<or> (\<exists>j<length vs. p (vs ! j) (Suc i + j))"
    by (auto simp: less_Suc_eq_0_disj)
  with Cons show ?case by simp
qed

lemma reduceI_total:
  assumes "D acc"
    and "\<And>acc j. j < length vs \<Longrightarrow> D acc \<Longrightarrow> \<exists>acc'. f acc (vs ! j) (i + j) = Inr acc' \<and> D acc'"
  shows "\<exists>acc'. reduceI f vs i acc = Inr acc' \<and> D acc'"
  using assms
proof (induction vs arbitrary: i acc)
  case Nil
  then show ?case by simp
next
  case (Cons v vs)
  from Cons.prems(2)[of 0 acc] Cons.prems(1)
  obtain acc1 where a1: "f acc v i = Inr acc1" "D acc1" by auto
  have "\<exists>acc'. reduceI f vs (Suc i) acc1 = Inr acc' \<and> D acc'"
  proof (rule Cons.IH[OF a1(2)])
    fix acc j assume "j < length vs" "D acc"
    with Cons.prems(2)[of "Suc j" acc]
    show "\<exists>acc'. f acc (vs ! j) (Suc i + j) = Inr acc' \<and> D acc'" by simp
  qed
  with a1 show ?case by simp
qed

lemma reduceI_preserves_ix:
  assumes "reduceI f vs i acc = Inr acc'" and "P acc"
    and "\<And>acc k acc'. k < length vs \<Longrightarrow> f acc (vs ! k) (i + k) = Inr acc' \<Longrightarrow> P acc \<Longrightarrow> P acc'"
  shows "P acc'"
  using assms
proof (induction vs arbitrary: i acc)
  case Nil
  then show ?case by simp
next
  case (Cons v vs)
  from Cons.prems(1) obtain acc1 where a1: "f acc v i = Inr acc1"
    and r: "reduceI f vs (Suc i) acc1 = Inr acc'"
    by (auto split: sum.splits)
  have p1: "P acc1" using Cons.prems(3)[of 0 acc acc1] a1 Cons.prems(2) by simp
  show ?case
  proof (rule Cons.IH[OF r p1])
    fix acc k acc'' assume "k < length vs" "f acc (vs ! k) (Suc i + k) = Inr acc''" "P acc"
    then show "P acc''" using Cons.prems(3)[of "Suc k" acc acc''] by simp
  qed
qed

lemma reduceI_establishes_aux:
  "reduceI f vs i acc = Inr acc' \<Longrightarrow> D acc \<Longrightarrow> j < length vs \<Longrightarrow>
   (\<forall>a k a'. k < length vs \<longrightarrow> f a (vs ! k) (i + k) = Inr a' \<longrightarrow> D a \<longrightarrow> D a') \<Longrightarrow>
   (\<forall>a k a'. k < length vs \<longrightarrow> f a (vs ! k) (i + k) = Inr a' \<longrightarrow> D a \<longrightarrow> Q a \<longrightarrow> Q a') \<Longrightarrow>
   (\<forall>a a'. f a (vs ! j) (i + j) = Inr a' \<longrightarrow> D a \<longrightarrow> Q a') \<Longrightarrow> Q acc'"
proof (induction vs arbitrary: i acc j)
  case Nil
  then show ?case by simp
next
  case (Cons v vs)
  from Cons.prems(1) obtain acc1 where a1: "f acc v i = Inr acc1"
    and r: "reduceI f vs (Suc i) acc1 = Inr acc'"
    by (auto split: sum.splits)
  have d1: "D acc1" using Cons.prems(4) a1 Cons.prems(2) by force
  have pres': "\<forall>a k a'. k < length vs \<longrightarrow> f a (vs ! k) (Suc i + k) = Inr a' \<longrightarrow> D a \<longrightarrow> D a'"
  proof (intro allI impI)
    fix a k a' assume "k < length vs" "f a (vs ! k) (Suc i + k) = Inr a'" "D a"
    then show "D a'" using Cons.prems(4)[rule_format, of "Suc k" a a'] by simp
  qed
  have keep': "\<forall>a k a'. k < length vs \<longrightarrow> f a (vs ! k) (Suc i + k) = Inr a' \<longrightarrow> D a \<longrightarrow> Q a \<longrightarrow> Q a'"
  proof (intro allI impI)
    fix a k a' assume "k < length vs" "f a (vs ! k) (Suc i + k) = Inr a'" "D a" "Q a"
    then show "Q a'" using Cons.prems(5)[rule_format, of "Suc k" a a'] by simp
  qed
  show ?case
  proof (cases j)
    case 0
    then have q1: "Q acc1" using Cons.prems(6) a1 Cons.prems(2) by force
    have "D acc' \<and> Q acc'"
      by (rule reduceI_preserves_ix[OF r, where P = "\<lambda>a. D a \<and> Q a"])
         (use d1 q1 pres' keep' in blast)+
    then show ?thesis by simp
  next
    case (Suc j')
    then have j': "j' < length vs" using Cons.prems(3) by simp
    have est': "\<forall>a a'. f a (vs ! j') (Suc i + j') = Inr a' \<longrightarrow> D a \<longrightarrow> Q a'"
      using Cons.prems(6) Suc by simp
    show ?thesis by (rule Cons.IH[OF r d1 j' pres' keep' est'])
  qed
qed

lemma reduceI_establishes:
  assumes "reduceI f vs i acc = Inr acc'" and "D acc" and "j < length vs"
    and "\<And>a k a'. k < length vs \<Longrightarrow> f a (vs ! k) (i + k) = Inr a' \<Longrightarrow> D a \<Longrightarrow> D a'"
    and "\<And>a k a'. k < length vs \<Longrightarrow> f a (vs ! k) (i + k) = Inr a' \<Longrightarrow> D a \<Longrightarrow> Q a \<Longrightarrow> Q a'"
    and "\<And>a a'. f a (vs ! j) (i + j) = Inr a' \<Longrightarrow> D a \<Longrightarrow> Q a'"
  shows "Q acc'"
  by (rule reduceI_establishes_aux[where f = f and vs = vs and i = i and acc = acc
        and D = D and Q = Q and j = j, OF assms(1,2,3)])
     (use assms(4,5,6) in blast)+

lemma allShapes_ok: "list_all shapeOK allShapes"
  by code_simp

lemma allShapes_closed:
  "list_all (\<lambda>sh. tetrominoRotation sh = Inr (rotated sh) \<and> rotated sh \<in> set allShapes) allShapes"
  by code_simp

lemma catalogue_shapes:
  "list_all (\<lambda>t. shape t \<in> set allShapes \<and> length (shape t) \<le> 2 \<and> color t \<noteq> 0) tetrominoes"
  by code_simp

lemma shape_facts:
  assumes "shape b \<in> set allShapes"
  shows "shape b \<noteq> []" and "length (shape b) \<le> 4"
    and "1 \<le> shapeWidth b" and "shapeWidth b \<le> 4"
    and "sy < length (shape b) \<Longrightarrow> int (length (shape b ! sy)) = shapeWidth b"
    and "sy < length (shape b) \<Longrightarrow> \<exists>sx<length (shape b ! sy). shape b ! sy ! sx \<noteq> 0"
proof -
  have ok: "shapeOK (shape b)" using assms allShapes_ok by (simp add: list_all_iff)
  then obtain r0 rest where sh: "shape b = r0 # rest"
    by (cases "shape b") (auto simp: shapeOK_def)
  show "shape b \<noteq> []" using sh by simp
  show "length (shape b) \<le> 4" using ok sh by (simp add: shapeOK_def)
  show "1 \<le> shapeWidth b" using ok sh by (simp add: shapeOK_def shapeWidth_def)
  show "shapeWidth b \<le> 4" using ok sh by (simp add: shapeOK_def shapeWidth_def)
  have rows: "\<forall>row\<in>set (shape b). length row = length r0 \<and> (\<exists>c\<in>set row. c \<noteq> 0)"
    using ok sh by (simp add: shapeOK_def list_all_iff list_ex_iff del: list.set)
  show "int (length (shape b ! sy)) = shapeWidth b" if "sy < length (shape b)"
    using rows that sh by (simp add: shapeWidth_def del: list.set)
  show "\<exists>sx<length (shape b ! sy). shape b ! sy ! sx \<noteq> 0" if "sy < length (shape b)"
  proof -
    from rows that obtain c where "c \<in> set (shape b ! sy)" "c \<noteq> 0" by (meson nth_mem)
    then show ?thesis by (auto simp: in_set_conv_nth)
  qed
qed

lemma catalogue_facts:
  assumes "i < 7"
  shows "shape (tetrominoes ! i) \<in> set allShapes" and "length (shape (tetrominoes ! i)) \<le> 2"
    and "color (tetrominoes ! i) \<noteq> 0"
    and "x (tetrominoes ! i) = 4" and "y (tetrominoes ! i) = -1"
proof -
  have "length tetrominoes = 7" by (simp add: tetrominoes_def)
  with assms have "tetrominoes ! i \<in> set tetrominoes" by (metis nth_mem)
  then show "shape (tetrominoes ! i) \<in> set allShapes" "length (shape (tetrominoes ! i)) \<le> 2"
    "color (tetrominoes ! i) \<noteq> 0"
    using catalogue_shapes by (auto simp: list_all_iff)
  show "x (tetrominoes ! i) = 4" "y (tetrominoes ! i) = -1"
    using index_below_7[OF assms] by (auto simp: tetrominoes_def)
qed

lemma reduceI2_total:
  assumes "D acc"
    and step: "\<And>a sy sx. sy < length rows \<Longrightarrow> sx < length (rows ! sy) \<Longrightarrow> D a
           \<Longrightarrow> \<exists>a'. f sy a (rows ! sy ! sx) sx = Inr a' \<and> D a'"
  shows "\<exists>acc'. reduceI (\<lambda>outerAcc row sy. reduceI (f sy) row 0 outerAcc) rows 0 acc = Inr acc'
           \<and> D acc'"
proof (rule reduceI_total[where D = D])
  show "D acc" by fact
next
  fix a sy assume sy: "sy < length rows" and a: "D a"
  have "\<exists>a'. reduceI (f sy) (rows ! sy) 0 a = Inr a' \<and> D a'"
  proof (rule reduceI_total[where D = D])
    show "D a" by fact
  next
    fix a1 sx assume "sx < length (rows ! sy)" "D a1"
    then show "\<exists>a'. f sy a1 (rows ! sy ! sx) (0 + sx) = Inr a' \<and> D a'"
      using step[OF sy] by simp
  qed
  then show "\<exists>a'. reduceI (f (0 + sy)) (rows ! sy) 0 a = Inr a' \<and> D a'" by simp
qed

lemma reduceI2_establishes:
  assumes red: "reduceI (\<lambda>outerAcc row sy. reduceI (f sy) row 0 outerAcc) rows 0 acc = Inr acc'"
    and "D acc" and sy: "sy < length rows" and sx: "sx < length (rows ! sy)"
    and pres: "\<And>a k l a'. f k a (rows ! k ! l) l = Inr a' \<Longrightarrow> D a \<Longrightarrow> D a'"
    and keep: "\<And>a k l a'. f k a (rows ! k ! l) l = Inr a' \<Longrightarrow> D a \<Longrightarrow> Q a \<Longrightarrow> Q a'"
    and est: "\<And>a a'. f sy a (rows ! sy ! sx) sx = Inr a' \<Longrightarrow> D a \<Longrightarrow> Q a'"
  shows "Q acc'"
proof (rule reduceI_establishes[where D = D and Q = Q and j = sy, OF red])
  show "D acc" by fact
next
  show "sy < length rows" by fact
next
  fix a k a' assume "k < length rows"
    and r: "reduceI (f (0 + k)) (rows ! k) 0 a = Inr a'" and "D a"
  then show "D a'"
    by (elim reduceI_preserves_ix[where P = D]) (use pres in auto)
next
  fix a k a' assume "k < length rows"
    and r: "reduceI (f (0 + k)) (rows ! k) 0 a = Inr a'" and "D a" "Q a"
  then have "D a' \<and> Q a'"
    by (elim reduceI_preserves_ix[where P = "\<lambda>a. D a \<and> Q a"]) (use pres keep in auto)
  then show "Q a'" by simp
next
  fix a a' assume r: "reduceI (f (0 + sy)) (rows ! sy) 0 a = Inr a'" and a: "D a"
  from r have r': "reduceI (f sy) (rows ! sy) 0 a = Inr a'" by simp
  show "Q a'"
    by (rule reduceI_establishes[where D = D and Q = Q and j = sx, OF r'])
       (use a sx pres keep est in auto)
qed

lemma reduceI2_preserves':
  assumes red: "reduceI (\<lambda>outerAcc row sy. reduceI (f sy) row 0 outerAcc) rows 0 acc = Inr acc'"
    and "P acc"
    and pres: "\<And>a k l a'. f k a (rows ! k ! l) l = Inr a' \<Longrightarrow> P a \<Longrightarrow> P a'"
  shows "P acc'"
proof (rule reduceI_preserves_ix[where P = P, OF red])
  show "P acc" by fact
next
  fix a k a' assume "k < length rows"
    and r: "reduceI (f (0 + k)) (rows ! k) 0 a = Inr a'" and "P a"
  then show "P a'"
    by (elim reduceI_preserves_ix[where P = P]) (use pres in auto)
qed

lemma gridDims_iff:
  "gridDims g \<longleftrightarrow> length g = 20 \<and> (\<forall>r<20. length (g ! r) = 10)"
  by (auto simp: gridDims_def list_all_length)

lemma gridDims_update:
  "gridDims g \<Longrightarrow> gridDims (g[r := (g ! r)[c := v]])"
  by (cases "r < length g") (auto simp: gridDims_iff nth_list_update)

lemma mergeBlockWithBlock_total:
  assumes "gridDims g" and "fitsBoard b"
  shows "\<exists>ng. mergeBlockWithBlock g b = Inr ng \<and> gridDims ng"
  unfolding mergeBlockWithBlock_def
proof (rule reduceI2_total[where D = gridDims])
  show "gridDims g" by fact
next
  fix a sy sx
  assume sy: "sy < length (shape b)" and "sx < length (shape b ! sy)" and a: "gridDims a"
  have "y b + int sy < 20" using assms(2) sy by (simp add: fitsBoard_def)
  then show "\<exists>a'. mergeCell b sy a (shape b ! sy ! sx) sx = Inr a' \<and> gridDims a'"
    using a gridDims_update[OF a] by (auto simp: mergeCell_def Let_def gridDims_iff)
qed

lemma lockInWrite_total:
  assumes "gridDims g" and "fitsBoard b" and "0 \<le> y b"
  shows "\<exists>lg. lockInWrite g b = Inr lg \<and> gridDims lg"
  unfolding lockInWrite_def
proof (rule reduceI2_total[where D = gridDims])
  show "gridDims g" by fact
next
  fix a sy sx
  assume sy: "sy < length (shape b)" and sx: "sx < length (shape b ! sy)" and a: "gridDims a"
  have sh: "shape b \<in> set allShapes" using assms(2) by (simp add: fitsBoard_def)
  have yb: "y b + int sy < 20" "0 \<le> y b + int sy"
    using assms(2,3) sy by (simp_all add: fitsBoard_def)
  have "int (length (shape b ! sy)) = shapeWidth b"
    using shape_facts(5)[OF sh sy] .
  then have xb: "x b + int sx < 10" "0 \<le> x b + int sx"
    using assms(2) sx by (simp_all add: fitsBoard_def)
  show "\<exists>a'. lockCell b sy a (shape b ! sy ! sx) sx = Inr a' \<and> gridDims a'"
    using a gridDims_update[OF a] yb xb by (auto simp: lockCell_def Let_def gridDims_iff)
qed

lemma mergeCell_dims: "mergeCell b sy a cell sx = Inr a' \<Longrightarrow> gridDims a \<Longrightarrow> gridDims a'"
  using gridDims_update[of a]
  by (auto simp: mergeCell_def Let_def split: if_splits)

lemma mergeCell_nonzero:
  assumes "mergeCell b sy a cell sx = Inr a'" and "gridDims a" and "color b \<noteq> 0"
    and "r < 20" and "c < 10" and "a ! r ! c \<noteq> 0"
  shows "a' ! r ! c \<noteq> 0"
  using assms
  by (auto simp: mergeCell_def Let_def gridDims_iff nth_list_update split: if_splits)

lemma mergeCell_marks:
  assumes "mergeCell b sy a cell sx = Inr a'" and "gridDims a" and "color b \<noteq> 0"
    and "cell \<noteq> 0" and "0 \<le> y b + int sy" and "y b + int sy < 20"
    and "0 \<le> x b + int sx" and "x b + int sx < 10"
  shows "a' ! nat (y b + int sy) ! nat (x b + int sx) \<noteq> 0"
  using assms
  by (auto simp: mergeCell_def Let_def gridDims_iff nth_list_update split: if_splits)

lemma merge_keeps_nonzero:
  assumes "mergeBlockWithBlock g b = Inr ng" and "gridDims g" and "color b \<noteq> 0"
    and "r < 20" and "c < 10" and "g ! r ! c \<noteq> 0"
  shows "ng ! r ! c \<noteq> 0"
proof -
  have "gridDims ng \<and> ng ! r ! c \<noteq> 0"
    by (rule reduceI2_preserves'[OF assms(1)[unfolded mergeBlockWithBlock_def],
          where P = "\<lambda>a. gridDims a \<and> a ! r ! c \<noteq> 0"])
       (use assms(2-6) mergeCell_dims mergeCell_nonzero in blast)+
  then show ?thesis by simp
qed

lemma merge_marks_cell:
  assumes "mergeBlockWithBlock g b = Inr ng" and "gridDims g" and "color b \<noteq> 0"
    and sy: "sy < length (shape b)" and sx: "sx < length (shape b ! sy)"
    and "shape b ! sy ! sx \<noteq> 0"
    and "0 \<le> y b + int sy" and "y b + int sy < 20"
    and "0 \<le> x b + int sx" and "x b + int sx < 10"
  shows "ng ! nat (y b + int sy) ! nat (x b + int sx) \<noteq> 0"
proof (rule reduceI2_establishes[where D = gridDims and sy = sy and sx = sx
      and Q = "\<lambda>a. a ! nat (y b + int sy) ! nat (x b + int sx) \<noteq> 0",
      OF assms(1)[unfolded mergeBlockWithBlock_def]])
  show "gridDims g" by fact
next
  show "sy < length (shape b)" by fact
next
  show "sx < length (shape b ! sy)" by fact
next
  fix a k l a' assume "mergeCell b k a (shape b ! k ! l) l = Inr a'" "gridDims a"
  then show "gridDims a'" by (rule mergeCell_dims)
next
  fix a k l a'
  assume "mergeCell b k a (shape b ! k ! l) l = Inr a'" "gridDims a"
    "a ! nat (y b + int sy) ! nat (x b + int sx) \<noteq> 0"
  then show "a' ! nat (y b + int sy) ! nat (x b + int sx) \<noteq> 0"
    using assms(3,7-10)
      mergeCell_nonzero[of b k a "shape b ! k ! l" l a' "nat (y b + int sy)" "nat (x b + int sx)"]
    by auto
next
  fix a a' assume "mergeCell b sy a (shape b ! sy ! sx) sx = Inr a'" "gridDims a"
  then show "a' ! nat (y b + int sy) ! nat (x b + int sx) \<noteq> 0"
    using assms(3,6-10) mergeCell_marks[of b sy a "shape b ! sy ! sx" sx a'] by auto
qed

lemma collisionChecker_iff:
  "collisionChecker g b ox oy \<longleftrightarrow>
     (\<exists>sy<length (shape b). \<exists>sx<length (shape b ! sy).
         collisionCell g b ox oy sy (shape b ! sy ! sx) sx)"
  by (simp add: collisionChecker_def someI_iff)

text \<open>A piece at row \<open>-1\<close> that locks leaves a cell in the top row of the merged board.\<close>

lemma lock_at_top_fills_top_row:
  assumes g: "gridDims g" and fb: "fitsBoard b" and yb: "y b = -1"
    and lock: "lockBlockChecker b g"
    and merge: "mergeBlockWithBlock g b = Inr (row0 # rows)"
  shows "list_ex (\<lambda>cell. cell \<noteq> 0) row0"
proof -
  have sh: "shape b \<in> set allShapes" and col: "color b \<noteq> 0"
    and xb: "0 \<le> x b" "x b + shapeWidth b \<le> 10"
    using fb by (simp_all add: fitsBoard_def)
  note facts = shape_facts[OF sh]
  have ng: "gridDims (row0 # rows)"
    using mergeBlockWithBlock_total[OF g fb] merge by simp
  have xin: "0 \<le> x b + int sx \<and> x b + int sx < 10"
    if "sy < length (shape b)" "sx < length (shape b ! sy)" for sy sx
    using facts(5)[OF that(1)] that(2) xb by simp
  have "\<exists>c<10. (row0 # rows) ! 0 ! c \<noteq> 0"
  proof (cases "length (shape b) = 1")
    case True
    have "\<not> y b + int (length (shape b)) > GRID_HEIGHT - 1" using yb True by simp
    moreover have "\<not> y b < -1" using yb by simp
    ultimately have "collisionChecker g b 0 1"
      using lock by (auto simp: lockBlockChecker_def split: if_splits)
    then obtain sy sx where sy: "sy < length (shape b)" and sx: "sx < length (shape b ! sy)"
      and cc: "collisionCell g b 0 1 sy (shape b ! sy ! sx) sx"
      by (auto simp: collisionChecker_iff)
    have sy0: "sy = 0" using sy True by simp
    from xin[OF sy sx] have x1: "0 \<le> x b + int sx" "x b + int sx < 10" by simp_all
    have len: "length (g ! 0) = 10" "length g = 20" using g by (simp_all add: gridDims_iff)
    from cc have "g ! 0 ! nat (x b + int sx) \<noteq> 0"
      using x1 yb sy0 len by (auto simp: collisionCell_def Let_def split: if_splits)
    then have "(row0 # rows) ! 0 ! nat (x b + int sx) \<noteq> 0"
      using merge_keeps_nonzero[OF merge g col, of 0 "nat (x b + int sx)"] x1 by simp
    then show ?thesis using x1 by (intro exI[of _ "nat (x b + int sx)"]) simp
  next
    case False
    then have sy: "1 < length (shape b)" using facts(1) by (cases "shape b") auto
    from facts(6)[OF sy] obtain sx where sx: "sx < length (shape b ! 1)"
      and cell: "shape b ! 1 ! sx \<noteq> 0" by blast
    from xin[OF sy sx] have x1: "0 \<le> x b + int sx" "x b + int sx < 10" by simp_all
    have "(row0 # rows) ! nat (y b + int 1) ! nat (x b + int sx) \<noteq> 0"
      by (rule merge_marks_cell[OF merge g col sy sx cell]) (use yb x1 in simp_all)
    then show ?thesis using x1 yb by (intro exI[of _ "nat (x b + int sx)"]) simp
  qed
  then obtain c where "c < 10" "row0 ! c \<noteq> 0" by auto
  moreover have "length row0 = 10" using ng by (simp add: gridDims_def)
  ultimately have "row0 ! c \<in> set row0" by simp
  with \<open>row0 ! c \<noteq> 0\<close> show ?thesis by (auto simp: list_ex_iff)
qed

lemma clearAndMoveRows_dims:
  assumes "gridDims g"
  shows "gridDims (fst (clearAndMoveRows g sc lv))"
proof -
  have eq: "fst (clearAndMoveRows g sc lv)
      = replicate (length (filter rowComplete g)) (replicate 10 0)
        @ filter (\<lambda>row. \<not> rowComplete row) g"
    by (simp add: clearAndMoveRows_def Let_def filter_complete_count) (simp add: rowComplete_def)
  have "length (filter rowComplete g) + length (filter (\<lambda>row. \<not> rowComplete row) g) = length g"
    by (rule sum_length_filter_compl)
  then show ?thesis using assms by (auto simp: eq gridDims_def list_all_iff)
qed

lemma getRandomTetromino_good: "i < 7 \<Longrightarrow> goodPiece (getRandomTetromino i)"
proof -
  assume i: "i < 7"
  note c = catalogue_facts[OF i]
  have "shapeWidth (getRandomTetromino i) \<le> 4"
    using shape_facts(4)[of "getRandomTetromino i"] c(1) by (simp add: getRandomTetromino_def)
  then show ?thesis using c by (simp add: goodPiece_def getRandomTetromino_def)
qed

lemma initialState_invariant: "i < 7 \<Longrightarrow> reducerInvariant (initialState i j)"
proof -
  assume i: "i < 7"
  note c = catalogue_facts[OF i]
  have "shapeWidth (tetrominoes ! i) \<le> 4" using shape_facts(4)[OF c(1)] .
  then show ?thesis using c
    by (simp add: reducerInvariant_def goodPiece_def initialState_def gridDims_def list_all_iff)
qed

lemma clamp_fits:
  assumes sh: "shape b0 \<in> set allShapes" and col: "color b0 \<noteq> 0"
    and h: "y b0 + int (length (shape b0)) \<le> GRID_HEIGHT"
  shows "\<exists>b. clampBlock b0 = Inr b \<and> fitsBoard b \<and> y b = y b0 \<and> shape b = shape b0"
proof -
  from clampBlock_defined[OF shape_facts(1)[OF sh]] obtain b where b: "clampBlock b0 = Inr b"
    by blast
  note same = clampBlock_shape[OF b]
  have w: "shapeWidth b = shapeWidth b0" using same by (simp add: shapeWidth_def)
  have "shapeWidth b0 \<le> GRID_WIDTH" using shape_facts(4)[OF sh] by simp
  from clampBlock_range[OF b this] have "0 \<le> x b" "x b + shapeWidth b \<le> GRID_WIDTH" by simp_all
  then have "fitsBoard b" using same sh col h by (simp add: fitsBoard_def)
  with b same show ?thesis by blast
qed

lemma no_collision_above_floor:
  assumes sh: "shape b \<in> set allShapes" and nc: "\<not> collisionChecker g b 0 0"
  shows "y b + int (length (shape b)) \<le> GRID_HEIGHT"
proof -
  have ne: "shape b \<noteq> []" using shape_facts(1)[OF sh] .
  then have last: "length (shape b) - 1 < length (shape b)" by simp
  from shape_facts(6)[OF sh last] obtain sx where sx: "sx < length (shape b ! (length (shape b) - 1))"
    and cell: "shape b ! (length (shape b) - 1) ! sx \<noteq> 0" by blast
  from nc last sx have "\<not> collisionCell g b 0 0 (length (shape b) - 1)
      (shape b ! (length (shape b) - 1) ! sx) sx"
    by (auto simp: collisionChecker_iff)
  with cell have "y b + int (length (shape b) - 1) < 20"
    by (auto simp: collisionCell_def Let_def)
  with ne show ?thesis by (cases "shape b") auto
qed

lemma movedBlock_game_event:
  assumes inv: "reducerInvariant s" and ev: "gameEvent e"
  shows "\<exists>b. movedBlock s e = Inr b \<and> fitsBoard b \<and> -1 \<le> y b"
proof -
  let ?fb = "fallingBlock s"
  have gp: "shape ?fb \<in> set allShapes" "color ?fb \<noteq> 0" "-1 \<le> y ?fb"
    "y ?fb + int (length (shape ?fb)) \<le> GRID_HEIGHT - 1"
    using inv by (simp_all add: reducerInvariant_def goodPiece_def)
  show ?thesis
  proof (cases e)
    case (Move dx dy)
    then have dy: "dy = 0 \<or> dy = 1" using ev by (simp add: gameEvent_def)
    let ?b0 = "?fb\<lparr>x := x ?fb + dx, y := y ?fb + dy\<rparr>"
    have am: "applyMovement s e = Inr ?b0" using Move by (simp add: applyMovement_def Let_def)
    have "\<exists>b. clampBlock ?b0 = Inr b \<and> fitsBoard b \<and> y b = y ?b0 \<and> shape b = shape ?b0"
      by (rule clamp_fits) (use gp dy in auto)
    then show ?thesis using am gp dy by (auto simp: movedBlock_def)
  next
    case Rotate
    let ?rot = "rotated (shape ?fb)"
    have rot: "tetrominoRotation (shape ?fb) = Inr ?rot" "?rot \<in> set allShapes"
      using allShapes_closed gp(1) by (auto simp: list_all_iff)
    show ?thesis
    proof (cases "collisionChecker (grid s) (?fb\<lparr>shape := ?rot\<rparr>) 0 0")
      case True
      then have am: "applyMovement s e = Inr ?fb"
        using Rotate rot by (simp add: applyMovement_def Let_def)
      have "\<exists>b. clampBlock ?fb = Inr b \<and> fitsBoard b \<and> y b = y ?fb \<and> shape b = shape ?fb"
        by (rule clamp_fits) (use gp in auto)
      then show ?thesis using am gp by (auto simp: movedBlock_def)
    next
      case False
      let ?b0 = "?fb\<lparr>shape := ?rot\<rparr>"
      from False have am: "applyMovement s e = Inr ?b0"
        using Rotate rot by (simp add: applyMovement_def Let_def)
      have "y ?b0 + int (length (shape ?b0)) \<le> GRID_HEIGHT"
        by (rule no_collision_above_floor[OF _ False]) (use rot in simp)
      then have "\<exists>b. clampBlock ?b0 = Inr b \<and> fitsBoard b \<and> y b = y ?b0 \<and> shape b = shape ?b0"
        by (intro clamp_fits) (use gp rot in auto)
      then show ?thesis using am gp by (auto simp: movedBlock_def)
    qed
  qed
qed

text \<open>
  Every event of a game takes a state that satisfies the invariant to a state that
  satisfies it, whatever piece the draw gives.
\<close>

theorem reducer_total_on_game_events:
  assumes inv: "reducerInvariant s" and ev: "gameEvent e" and i: "i < 7"
  shows "\<exists>s'. stateUpdater i s e = Inr s' \<and> reducerInvariant s'"
proof -
  from movedBlock_game_event[OF inv ev] obtain b
    where mb: "movedBlock s e = Inr b" and fb: "fitsBoard b" and yb: "-1 \<le> y b" by blast
  have g: "gridDims (grid s)" using inv by (simp add: reducerInvariant_def)
  show ?thesis
  proof (cases "lockBlockChecker b (grid s)")
    case False
    then have "y b + int (length (shape b)) \<le> GRID_HEIGHT - 1"
      by (auto simp: lockBlockChecker_def split: if_splits)
    then have "goodPiece b" using fb yb by (simp add: fitsBoard_def goodPiece_def)
    then show ?thesis
      using False stateUpdater_unfold[OF mb, of i] clearAndMoveRows_dims[OF g]
      by (simp add: reducerInvariant_def)
  next
    case True
    then have su: "stateUpdater i s e = lockBlock i s b"
      using stateUpdater_unfold[OF mb, of i] by simp
    from mergeBlockWithBlock_total[OF g fb] obtain ng
      where ng: "mergeBlockWithBlock (grid s) b = Inr ng" "gridDims ng" by blast
    then obtain row0 rows where rows: "ng = row0 # rows"
      by (cases ng) (auto simp: gridDims_def)
    show ?thesis
    proof (cases "list_ex (\<lambda>cell. cell \<noteq> 0) row0")
      case True
      then have "lockBlock i s b = Inr (s\<lparr>gameEnd := True\<rparr>)"
        using ng rows by (simp add: lockBlock_def Let_def)
      then show ?thesis using su inv by (simp add: reducerInvariant_def)
    next
      case False
      have "y b \<noteq> -1"
        using lock_at_top_fills_top_row[OF g fb _ \<open>lockBlockChecker b (grid s)\<close>
            ng(1)[unfolded rows]] False by blast
      then have "0 \<le> y b" using yb by simp
      from lockInWrite_total[OF ng(2) fb this] obtain lg
        where lg: "lockInWrite ng b = Inr lg" "gridDims lg" by blast
      have "lockBlock i s b = Inr (s\<lparr>grid := lg, fallingBlock := getRandomTetromino i,
              nextBlock := getRandomTetromino i\<rparr>)"
        using ng rows False lg by (simp add: lockBlock_def Let_def)
      then show ?thesis using su lg(2) getRandomTetromino_good[OF i]
        by (simp add: reducerInvariant_def)
    qed
  qed
qed

text \<open>So does every sequence of such events; initial states satisfy the invariant.\<close>

lemma runEvents_total:
  assumes "reducerInvariant s" and "list_all (\<lambda>(i, e). i < 7 \<and> gameEvent e) es"
  shows "\<exists>s'. runEvents s es = Inr s' \<and> reducerInvariant s'"
  using assms
proof (induction es arbitrary: s)
  case Nil
  then show ?case by simp
next
  case (Cons ie es)
  obtain i e where ie: "ie = (i, e)" by (cases ie)
  with Cons.prems have "i < 7" "gameEvent e" by simp_all
  from reducer_total_on_game_events[OF Cons.prems(1) this(2,1)] obtain s1
    where s1: "stateUpdater i s e = Inr s1" "reducerInvariant s1" by blast
  from Cons.IH[OF s1(2)] Cons.prems(2) show ?case using s1(1) ie by simp
qed

lemma games_never_raise:
  assumes "i < 7" and "list_all (\<lambda>(i, e). i < 7 \<and> gameEvent e) es"
  shows "\<exists>s'. runEvents (initialState i j) es = Inr s'"
  using runEvents_total[OF initialState_invariant[OF assms(1)] assms(2)] by blast

section \<open>Where the lock-in write goes wrong\<close>

text \<open>
  Claim C3 fails on the code. In an initial state with the O piece, the event
  \<open>Move 0 (-1)\<close> lifts the piece to row \<open>-2\<close>; \<^verbatim>\<open>lockBlockChecker\<close> answers true on
  \<^verbatim>\<open>block.y < -1\<close>, and the lock-in write of \<^verbatim>\<open>lockBlock\<close> assigns to \<^verbatim>\<open>rowAcc[-2][4]\<close>,
  which raises. The event \<open>Move 0 20\<close> puts the lower cells of the piece in row 20, which
  the test \<^verbatim>\<open>gridY <= Constants.GRID_HEIGHT\<close> of \<^verbatim>\<open>mergeBlockWithBlock\<close> lets through, and
  reading \<^verbatim>\<open>innerAcc[20][4]\<close> raises. Both events are moves the program never
  generates; on those it does generate the reducer is total
  (\<open>reducer_total_on_game_events\<close> above).
\<close>

theorem move_out_of_board_raises:
  "stateUpdater 0 (initialState 0 0) (Move 0 (-1)) = Inl TypeError
   \<and> stateUpdater 0 (initialState 0 0) (Move 0 20) = Inl TypeError"
  by code_simp

text \<open>
  Claim C4 fails on the code. \<open>overwriteExample\<close> is a state of a real game
  (\<open>overwriteEvents\<close> from an initial state): an O piece of colour 1 is locked in rows 18
  and 19, columns 4 and 5, and an I piece of colour 2 lies in row 18, columns 0 to 3. The
  event \<open>Move 1 0\<close> moves the I piece over cell \<open>(18, 4)\<close>, where it locks.
  \<^verbatim>\<open>mergeBlockWithBlock\<close> leaves the cell at 1, and the lock-in write of \<^verbatim>\<open>lockBlock\<close>
  then stores 2 in it.
\<close>

theorem lock_overwrites_locked_cell:
  "runEvents (initialState 0 0) overwriteEvents = Inr overwriteExample
   \<and> grid overwriteExample ! 18 ! 4 = 1
   \<and> movedBlock overwriteExample (Move 1 0) = Inr overwriteExampleBlock
   \<and> mergeBlockWithBlock (grid overwriteExample) overwriteExampleBlock
       = Inr (replicate 18 emptyRow @ [[0, 2, 2, 2, 1, 1, 0, 0, 0, 0], pileRow])
   \<and> stateUpdater 0 overwriteExample (Move 1 0) = Inr overwriteExampleResult
   \<and> grid overwriteExampleResult ! 18 ! 4 = 2"
  by code_simp

end
